theory Spec2Isabelle
  imports Main "HOL-Library.Word"
begin

unbundle bit_operations_syntax

section \<open>PiDNG core (src/pidng/core.py): data model\<close>

text \<open>
  Python exceptions are values. The constructor is the exception class, the string its
  message (or, for \<open>UnboundLocalError\<close>, the unbound variable).
\<close>

datatype error =
    Exception string
  | TypeError string
  | ValueError string
  | AttributeError
  | IndexError
  | KeyError
  | UnboundLocalError string
  | OSError string
  | ExternalError string

subsection \<open>Tags\<close>

text \<open>
  Modelled from the spec: \<open>Tag\<close>, \<open>dngTag\<close> and \<open>DNGTags\<close> of \<open>dng.py\<close> and
  \<open>defs.py\<close>, which core.py imports. A tag is a typed metadata entry holding an ordered
  sequence of raw values; a tag set holds at most one entry per tag id, in insertion
  order; \<open>get\<close> yields the entry or \<open>None\<close>; \<open>list\<close> yields the entries. Only the three
  mandatory tag ids are named by core.py; the others are numbered.
\<close>

datatype tag = ImageWidth | ImageLength | BitsPerSample | OtherTag nat

record dngTag =
  tagId :: tag
  rawValue :: "int list"

type_synonym DNGTags = "(tag \<times> dngTag) list"

definition tags_get :: "DNGTags \<Rightarrow> tag \<Rightarrow> dngTag option" where
  "tags_get tags t = map_of tags t"

definition tags_list :: "DNGTags \<Rightarrow> dngTag list" where
  "tags_list tags = map snd tags"

text \<open>Python truth value of the result of \<open>get\<close>: \<open>None\<close> is false, a tag object is true.\<close>

definition truthy :: "dngTag option \<Rightarrow> bool" where
  "truthy x = (x \<noteq> None)"

text \<open>\<open>tags.get(t).rawValue[0]\<close>: attribute access on \<open>None\<close> and indexing an empty list raise.\<close>

definition tag_value :: "DNGTags \<Rightarrow> tag \<Rightarrow> error + int" where
  "tag_value tags t =
     (case tags_get tags t of
        None \<Rightarrow> Inl AttributeError
      | Some d \<Rightarrow> (case rawValue d of [] \<Rightarrow> Inl IndexError | v # _ \<Rightarrow> Inr v))"

subsection \<open>Arrays\<close>

text \<open>
  A numpy array: its dtype, its shape and its elements in row-major order, as many as
  the shape says. \<open>UInt8\<close> and \<open>UInt16\<close> are \<open>np.uint8\<close> and \<open>np.uint16\<close>, the latter in
  the machine's byte order; their elements are machine words. Any other integer dtype
  (a wider or signed one, or a two-byte one in the other byte order) is kept with its
  item size in bytes, the byte order of the dtype itself, and its elements as integers.
\<close>

datatype byteorder = Little | Big

datatype dtype = UInt8 | UInt16 | OtherInt nat byteorder

datatype ndarray =
    U8 "nat list" "8 word list"
  | U16 "nat list" "16 word list"
  | Other nat byteorder "nat list" "int list"

fun dtype_of :: "ndarray \<Rightarrow> dtype" where
  "dtype_of (U8 _ _) = UInt8"
| "dtype_of (U16 _ _) = UInt16"
| "dtype_of (Other sz order _ _) = OtherInt sz order"

fun shape_of :: "ndarray \<Rightarrow> nat list" where
  "shape_of (U8 s _) = s"
| "shape_of (U16 s _) = s"
| "shape_of (Other _ _ s _) = s"

text \<open>What a user filter may return: an array, or some other Python object.\<close>

datatype pyobj = Array ndarray | NotArray

subsection \<open>Converter objects\<close>

text \<open>
  The class of the converter decides which \<open>__data_condition__\<close> and
  \<open>__unpack_pixels__\<close> run; the camera classes carry \<open>self.model.tags\<close>.
\<close>

datatype converter_class =
    DNGBASE
  | RAW2DNG
  | CAM2DNG DNGTags
  | RPICAM2DNG DNGTags
  | PICAM2DNG DNGTags

fun is_rpicam :: "converter_class \<Rightarrow> bool" where
  "is_rpicam (RPICAM2DNG _) = True"
| "is_rpicam (PICAM2DNG _) = True"
| "is_rpicam _ = False"

fun model_tags :: "converter_class \<Rightarrow> DNGTags" where
  "model_tags (CAM2DNG m) = m"
| "model_tags (RPICAM2DNG m) = m"
| "model_tags (PICAM2DNG m) = m"
| "model_tags _ = []"

record converter =
  compress :: "bool option"
  path :: "string option"
  tags :: "DNGTags option"
  filter_fn :: "(ndarray \<Rightarrow> error + pyobj) option"

text \<open>\<open>DNGBASE.__init__\<close>\<close>

definition init :: converter where
  "init = \<lparr>compress = None, path = None, tags = None, filter_fn = None\<rparr>"

section \<open>Configuration\<close>

text \<open>\<open>DNGBASE.__tags_condition__\<close>\<close>

definition tags_condition :: "DNGTags \<Rightarrow> error + unit" where
  "tags_condition tgs =
     (if \<not> truthy (tags_get tgs ImageWidth) then
        Inl (Exception ''No width is defined in tags.'')
      else if \<not> truthy (tags_get tgs ImageLength) then
        Inl (Exception ''No height is defined in tags.'')
      else if \<not> truthy (tags_get tgs BitsPerSample) then
        Inl (Exception ''Bit per pixel is not defined.'')
      else Inr ())"

text \<open>\<open>DNGBASE.options(tags, path, compress)\<close>: the object is updated only after the check.\<close>

definition options :: "converter \<Rightarrow> DNGTags \<Rightarrow> string \<Rightarrow> bool \<Rightarrow> error + converter" where
  "options self tgs pth cmp =
     (case tags_condition tgs of
        Inl e \<Rightarrow> Inl e
      | Inr _ \<Rightarrow> Inr (self\<lparr>tags := Some tgs, compress := Some cmp, path := Some pth\<rparr>))"

text \<open>\<open>CAM2DNG.options(path, compress)\<close>\<close>

definition cam_options :: "converter_class \<Rightarrow> converter \<Rightarrow> string \<Rightarrow> bool \<Rightarrow> error + converter" where
  "cam_options cls self pth cmp =
     (case tags_condition (model_tags cls) of
        Inl e \<Rightarrow> Inl e
      | Inr _ \<Rightarrow>
          Inr (self\<lparr>tags := Some (model_tags cls), compress := Some cmp, path := Some pth\<rparr>))"

text \<open>\<open>PICAM2DNG.options(compress)\<close>\<close>

definition picam_options :: "converter_class \<Rightarrow> converter \<Rightarrow> bool \<Rightarrow> error + converter" where
  "picam_options cls self cmp =
     (case tags_condition (model_tags cls) of
        Inl e \<Rightarrow> Inl e
      | Inr _ \<Rightarrow>
          Inr (self\<lparr>tags := Some (model_tags cls), compress := Some cmp, path := Some []\<rparr>))"

section \<open>Input validation\<close>

text \<open>
  \<open>__data_condition__\<close>: the base class raises unless the dtype is uint16; the Raspberry
  Pi classes override it and only warn unless the dtype is uint8. The result on success
  is the list of warnings emitted.
\<close>

definition data_condition :: "converter_class \<Rightarrow> ndarray \<Rightarrow> error + string list" where
  "data_condition cls data =
     (if is_rpicam cls then
        (if dtype_of data \<noteq> UInt8 then
           Inr [''RAW Data is not in correct format. Already unpacked? '']
         else Inr [])
      else
        (if dtype_of data \<noteq> UInt16 then
           Inl (Exception ''RAW Data is not in correct format. Must be uint16_t Numpy Array. '')
         else Inr []))"

section \<open>Sensor unpacker\<close>

subsection \<open>numpy column slices on one row\<close>

text \<open>Number of indices selected by the slice \<open>start::step\<close> on an axis of length \<open>n\<close>.\<close>

definition slice_len :: "nat \<Rightarrow> nat \<Rightarrow> nat \<Rightarrow> nat" where
  "slice_len start step n = (if start < n then (n - start + step - 1) div step else 0)"

text \<open>\<open>row[start::step]\<close>\<close>

definition col_slice :: "nat \<Rightarrow> nat \<Rightarrow> 'a list \<Rightarrow> 'a list" where
  "col_slice start step xs =
     map (\<lambda>j. xs ! (start + j * step)) [0..<slice_len start step (length xs)]"

text \<open>\<open>row[start::step] = vs\<close>, for \<open>vs\<close> of the slice's length.\<close>

definition col_assign :: "nat \<Rightarrow> nat \<Rightarrow> 'a list \<Rightarrow> 'a list \<Rightarrow> 'a list" where
  "col_assign start step xs vs =
     map (\<lambda>i. if start \<le> i \<and> (i - start) mod step = 0 then vs ! ((i - start) div step)
              else xs ! i)
         [0..<length xs]"

text \<open>\<open>np.delete(row, np.s_[start::step])\<close>\<close>

definition col_delete :: "nat \<Rightarrow> nat \<Rightarrow> 'a list \<Rightarrow> 'a list" where
  "col_delete start step xs =
     map (\<lambda>i. xs ! i)
         (filter (\<lambda>i. \<not> (start \<le> i \<and> (i - start) mod step = 0)) [0..<length xs])"

text \<open>
  Broadcasting along the column axis: an operand of \<open>n\<close> columns is used as it is, an
  operand of one column is repeated.
\<close>

definition bcast :: "nat \<Rightarrow> 'a list \<Rightarrow> 'a list" where
  "bcast n vs = (if length vs = n then vs else replicate n (hd vs))"

text \<open>Column count of \<open>a op b\<close>, or the broadcast error.\<close>

definition bcast_len :: "nat \<Rightarrow> nat \<Rightarrow> error + nat" where
  "bcast_len la lb =
     (if la = lb then Inr la
      else if la = 1 then Inr lb
      else if lb = 1 then Inr la
      else Inl (ValueError ''operands could not be broadcast together''))"

text \<open>Whether a value of \<open>lv\<close> columns may be stored into a target of \<open>lt\<close> columns.\<close>

definition assignable :: "nat \<Rightarrow> nat \<Rightarrow> bool" where
  "assignable lt lv = (lv = lt \<or> lv = 1)"

subsection \<open>Geometry\<close>

text \<open>\<open>ver\<close> starts at 6 and the chain of tests on the height has no final \<open>else\<close>.\<close>

definition select_ver :: "int \<Rightarrow> nat" where
  "select_ver height =
     (if height = 1080 then 4
      else if height = 1520 then 5
      else if height = 3040 then 6
      else if height = 760 then 3
      else if height = 2464 then 2
      else if height = 1944 then 1
      else 6)"

text \<open>The table of (reshape, crop) pairs, keyed by \<open>ver\<close>.\<close>

definition geometry :: "(nat \<times> ((nat \<times> nat) \<times> (nat \<times> nat))) list" where
  "geometry =
     [(1, ((1952, 3264), (1944, 3240))),
      (2, ((2480, 4128), (2464, 4100))),
      (3, ((768, 1280), (760, 1265))),
      (4, ((1080, 3072), (1080, 3042))),
      (5, ((1520, 3072), (1520, 3042))),
      (6, ((3040, 6112), (3040, 6084)))]"

text \<open>\<open>data.reshape((r, c))\<close>: the element count must be \<open>r * c\<close>.\<close>

definition reshape2 :: "nat \<times> nat \<Rightarrow> 'a list \<Rightarrow> error + 'a list list" where
  "reshape2 shp xs =
     (case shp of (r, c) \<Rightarrow>
        if length xs = r * c then Inr (map (\<lambda>i. take c (drop (i * c) xs)) [0..<r])
        else Inl (ValueError ''cannot reshape array''))"

text \<open>\<open>a[:cr, :cc]\<close>\<close>

definition crop2 :: "nat \<times> nat \<Rightarrow> 'a list list \<Rightarrow> 'a list list" where
  "crop2 crp rows = (case crp of (cr, cc) \<Rightarrow> map (take cc) (take cr rows))"

subsection \<open>Legacy scheme (\<open>ver < 4\<close>)\<close>

text \<open>
  One pass of the loop body on one row:
  \<open>data[:, byte::5] |= ((data[:, 4::5] >> ((byte+1) * 2)) & 0b11)\<close>.
\<close>

definition row_ior :: "nat \<Rightarrow> 16 word list \<Rightarrow> 16 word list" where
  "row_ior byte row =
     col_assign byte 5 row
       (map2 (OR) (col_slice byte 5 row)
          (bcast (slice_len byte 5 (length row))
             (map (\<lambda>x. drop_bit ((byte + 1) * 2) x AND 3) (col_slice 4 5 row))))"

text \<open>The in-place update needs the right-hand side to broadcast to the target columns.\<close>

definition ior_step :: "nat \<Rightarrow> nat \<Rightarrow> 16 word list list \<Rightarrow> error + 16 word list list" where
  "ior_step ncols byte data =
     (if assignable (slice_len byte 5 ncols) (slice_len 4 5 ncols) then
        Inr (map (row_ior byte) data)
      else Inl (ValueError ''operands could not be broadcast together''))"

text \<open>\<open>for byte in range(4): ...\<close>\<close>

fun ior_loop :: "nat list \<Rightarrow> nat \<Rightarrow> 16 word list list \<Rightarrow> error + 16 word list list" where
  "ior_loop [] ncols data = Inr data"
| "ior_loop (byte # bs) ncols data =
     (case ior_step ncols byte data of
        Inl e \<Rightarrow> Inl e
      | Inr d \<Rightarrow> ior_loop bs ncols d)"

text \<open>
  \<open>astype(uint16) << 2\<close> on every column, the loop over \<open>range(4)\<close>, then
  \<open>np.delete(data, np.s_[4::5], 1)\<close>. The result is the new column count and the rows.
\<close>

definition legacy_unpack :: "nat \<Rightarrow> 8 word list list \<Rightarrow> error + nat \<times> 16 word list list" where
  "legacy_unpack ncols rows8 =
     (let data = map (map (\<lambda>b. push_bit 2 (ucast b :: 16 word))) rows8 in
      case ior_loop [0, 1, 2, 3] ncols data of
        Inl e \<Rightarrow> Inl e
      | Inr d \<Rightarrow> Inr (ncols - slice_len 4 5 ncols, map (col_delete 4 5) d))"

subsection \<open>The legacy scheme in the specification's words\<close>

text \<open>
  The specification's sentence, read as it stands: each of the four data columns is
  shifted left by 2, and the slice for column offset \<open>k\<close> is taken from the fifth column
  by a right shift of \<open>(k + 1) * 2\<close> bits, masked to two bits. \<open>claimed_legacy_sample d f k\<close>
  is the sample this gives for the data byte \<open>d\<close> and the fifth byte \<open>f\<close> of its group;
  \<open>claimed_legacy_pixels\<close> is the whole array it gives for a buffer reshaped to rows of
  \<open>C\<close> bytes and cropped to \<open>(cr, cc)\<close>.
\<close>

definition claimed_legacy_sample :: "8 word \<Rightarrow> 8 word \<Rightarrow> nat \<Rightarrow> 16 word" where
  "claimed_legacy_sample d f k =
     push_bit 2 (ucast d) OR (drop_bit ((k + 1) * 2) (ucast f) AND 3)"

definition claimed_legacy_row :: "nat \<Rightarrow> nat \<Rightarrow> nat \<Rightarrow> 8 word list \<Rightarrow> 16 word list" where
  "claimed_legacy_row C cc r buf =
     concat (map (\<lambda>g. map (\<lambda>k. claimed_legacy_sample (buf ! (r * C + (5 * g + k)))
                                  (buf ! (r * C + (5 * g + 4))) k)
                          [0..<4])
                 [0..<cc div 5])"

definition claimed_legacy_pixels :: "nat \<Rightarrow> nat \<Rightarrow> nat \<Rightarrow> 8 word list \<Rightarrow> ndarray" where
  "claimed_legacy_pixels C cr cc buf =
     U16 [cr, 4 * (cc div 5)] (concat (map (\<lambda>r. claimed_legacy_row C cc r buf) [0..<cr]))"

subsection \<open>Modern scheme (\<open>ver \<ge> 4\<close>)\<close>

text \<open>\<open>a op b\<close> on two row slices whose lengths are broadcast-compatible.\<close>

definition bin_bcast :: "('a \<Rightarrow> 'a \<Rightarrow> 'a) \<Rightarrow> 'a list \<Rightarrow> 'a list \<Rightarrow> 'a list" where
  "bin_bcast f xs ys =
     (let n = max (length xs) (length ys) in map2 f (bcast n xs) (bcast n ys))"

text \<open>\<open>(data[:, ::3] << 4) + (data[:, 2::3] & 0x0F)\<close> on one row\<close>

definition even_samples :: "16 word list \<Rightarrow> 16 word list" where
  "even_samples row =
     bin_bcast (+) (map (push_bit 4) (col_slice 0 3 row))
                  (map (\<lambda>x. x AND 15) (col_slice 2 3 row))"

text \<open>\<open>(data[:, 1::3] << 4) + ((data[:, 2::3] >> 4) & 0x0F)\<close> on one row\<close>

definition odd_samples :: "16 word list \<Rightarrow> 16 word list" where
  "odd_samples row =
     bin_bcast (+) (map (push_bit 4) (col_slice 1 3 row))
                  (map (\<lambda>x. drop_bit 4 x AND 15) (col_slice 2 3 row))"

text \<open>
  The output has \<open>int(shape[1] / 3 * 2)\<close> columns, which is \<open>(2 * ncols) div 3\<close>; it
  starts as zeros and receives its even and then its odd columns. Each of the two
  statements \<open>unpacked_data[:, start::2] = a + b\<close> first broadcasts \<open>a\<close> with \<open>b\<close>, then
  the sum to the target columns.
\<close>

definition modern_store ::
  "nat \<Rightarrow> nat \<Rightarrow> nat \<Rightarrow> (16 word list \<Rightarrow> 16 word list) \<Rightarrow>
   16 word list list \<Rightarrow> 16 word list list \<Rightarrow> error + 16 word list list" where
  "modern_store start ncols w rhs unpacked_data data =
     (case bcast_len (slice_len start 3 ncols) (slice_len 2 3 ncols) of
        Inl e \<Rightarrow> Inl e
      | Inr l \<Rightarrow>
          (if assignable (slice_len start 2 w) l then
             Inr (map2 (\<lambda>u row. col_assign start 2 u (bcast (slice_len start 2 w) (rhs row)))
                       unpacked_data data)
           else Inl (ValueError ''could not broadcast input array'')))"

definition modern_unpack ::
  "nat \<Rightarrow> nat \<Rightarrow> 8 word list list \<Rightarrow> error + nat \<times> 16 word list list" where
  "modern_unpack nrows ncols rows8 =
     (let data = map (map (\<lambda>b. ucast b :: 16 word)) rows8;
          w = (2 * ncols) div 3;
          unpacked_data = replicate nrows (replicate w (0 :: 16 word))
      in
      (case modern_store 0 ncols w even_samples unpacked_data data of
         Inl e \<Rightarrow> Inl e
       | Inr unpacked1 \<Rightarrow>
           (case modern_store 1 ncols w odd_samples unpacked1 data of
              Inl e \<Rightarrow> Inl e
            | Inr unpacked2 \<Rightarrow> Inr (w, unpacked2))))"

subsection \<open>\<open>RPICAM2DNG.__unpack_pixels__\<close>\<close>

text \<open>The body after the dtype test, for a declared height and the bytes of the buffer.\<close>

definition unpack_raw :: "int \<Rightarrow> 8 word list \<Rightarrow> error + ndarray" where
  "unpack_raw height buf =
     (let ver = select_ver height in
      case map_of geometry ver of
        None \<Rightarrow> Inl KeyError
      | Some (reshape, crop) \<Rightarrow>
          (case reshape2 reshape buf of
             Inl e \<Rightarrow> Inl e
           | Inr rows \<Rightarrow>
               let data = crop2 crop rows;
                   nrows = min (fst crop) (fst reshape);
                   ncols = min (snd crop) (snd reshape)
               in
               if ver < 4 then
                 (case legacy_unpack ncols data of
                    Inl e \<Rightarrow> Inl e
                  | Inr (w, d) \<Rightarrow> Inr (U16 [nrows, w] (concat d)))
               else
                 (case modern_unpack nrows ncols data of
                    Inl e \<Rightarrow> Inl e
                  | Inr (w, d) \<Rightarrow> Inr (U16 [nrows, w] (concat d)))))"

text \<open>
  \<open>__unpack_pixels__\<close>: the base class returns its input; the Raspberry Pi classes return
  any array that is not uint8 as it is, and otherwise read the height from the camera
  model's tags.
\<close>

definition unpack_pixels :: "converter_class \<Rightarrow> ndarray \<Rightarrow> error + ndarray" where
  "unpack_pixels cls data =
     (if \<not> is_rpicam cls then Inr data
      else if dtype_of data \<noteq> UInt8 then Inr data
      else
        (case tag_value (model_tags cls) ImageLength of
           Inl e \<Rightarrow> Inl e
         | Inr height \<Rightarrow>
             (case data of U8 _ buf \<Rightarrow> unpack_raw height buf | _ \<Rightarrow> Inr data)))"

section \<open>Filter hook\<close>

text \<open>
  \<open>DNGBASE.__filter__\<close>: no filter returns the frame; otherwise the filter runs (it may
  raise) and its result is checked: an array, of the frame's shape, of dtype uint16.
\<close>

definition filter_stage ::
  "ndarray \<Rightarrow> (ndarray \<Rightarrow> error + pyobj) option \<Rightarrow> error + ndarray" where
  "filter_stage rawFrame f =
     (case f of
        None \<Rightarrow> Inr rawFrame
      | Some g \<Rightarrow>
          (case g rawFrame of
             Inl e \<Rightarrow> Inl e
           | Inr NotArray \<Rightarrow> Inl (TypeError ''return value is not a valid numpy array!'')
           | Inr (Array processed) \<Rightarrow>
               (if shape_of processed \<noteq> shape_of rawFrame then
                  Inl (ValueError ''return array does not have the same shape!'')
                else if dtype_of processed \<noteq> UInt16 then
                  Inl (ValueError ''array data type is invalid!'')
                else Inr processed)))"

section \<open>Strip production\<close>

text \<open>
  \<open>ndarray.tobytes()\<close> writes the elements in row-major order, each in the byte order of
  the array's dtype: for \<open>np.uint16\<close> that is the machine's byte order, which is a
  parameter here; an array of another dtype carries its own.
\<close>

definition u16_bytes :: "byteorder \<Rightarrow> 16 word \<Rightarrow> 8 word list" where
  "u16_bytes bo x =
     (case bo of
        Little \<Rightarrow> [ucast x, ucast (drop_bit 8 x)]
      | Big \<Rightarrow> [ucast (drop_bit 8 x), ucast x])"

definition int_bytes :: "byteorder \<Rightarrow> nat \<Rightarrow> int \<Rightarrow> 8 word list" where
  "int_bytes bo sz x =
     (let le = map (\<lambda>i. word_of_int (x div 256 ^ i)) [0..<sz] in
      case bo of Little \<Rightarrow> le | Big \<Rightarrow> rev le)"

fun tobytes :: "byteorder \<Rightarrow> ndarray \<Rightarrow> 8 word list" where
  "tobytes bo (U8 _ xs) = xs"
| "tobytes bo (U16 _ xs) = concat (map (u16_bytes bo) xs)"
| "tobytes bo (Other sz order _ xs) = concat (map (int_bytes order sz) xs)"

text \<open>\<open>a.astype('uint8')\<close> keeps the low eight bits of every element.\<close>

fun astype_uint8 :: "ndarray \<Rightarrow> ndarray" where
  "astype_uint8 (U8 s xs) = U8 s xs"
| "astype_uint8 (U16 s xs) = U8 s (map ucast xs)"
| "astype_uint8 (Other _ _ s xs) = U8 s (map word_of_int xs)"

text \<open>
  The collaborators that core.py imports and that are not part of it, as parameters: the
  bit packers of \<open>packing.py\<close>, the lossless JPEG codec \<open>pack16tolj\<close> (its constant
  arguments left out), and the container of \<open>dng.py\<close>, which receives the strip, the
  compression scheme and the caller's tags and yields the bytes of the file. Each may
  fail. \<open>native\<close> is the machine's byte order.
\<close>

datatype compression = Uncompressed | LJ92

record externals =
  pack10 :: "ndarray \<Rightarrow> error + ndarray"
  pack12 :: "ndarray \<Rightarrow> error + ndarray"
  pack14 :: "ndarray \<Rightarrow> error + ndarray"
  pack16tolj :: "ndarray \<Rightarrow> int \<Rightarrow> int \<Rightarrow> int \<Rightarrow> error + 8 word list"
  dng_write :: "8 word list \<Rightarrow> compression \<Rightarrow> dngTag list \<Rightarrow> error + 8 word list"
  native :: byteorder

text \<open>\<open>int(length / 2)\<close>: true division, then truncation towards zero.\<close>

definition trunc_half :: "int \<Rightarrow> int" where
  "trunc_half l = (if 0 \<le> l then l div 2 else - ((- l) div 2))"

text \<open>
  The assignment to \<open>tile\<close> in \<open>__process__\<close>. The chain over \<open>bpp\<close> has no final
  \<open>else\<close>: \<open>None\<close> is the variable left unbound.
\<close>

definition select_tile ::
  "externals \<Rightarrow> ndarray \<Rightarrow> int \<Rightarrow> int \<Rightarrow> int \<Rightarrow> bool \<Rightarrow> error + 8 word list option" where
  "select_tile ext rawFrame width len bpp cmp =
     (if cmp then
        (case pack16tolj ext rawFrame (width * 2) (trunc_half len) bpp of
           Inl e \<Rightarrow> Inl e
         | Inr t \<Rightarrow> Inr (Some t))
      else if bpp = 8 then Inr (Some (tobytes (native ext) (astype_uint8 rawFrame)))
      else if bpp = 10 then
        (case pack10 ext rawFrame of
           Inl e \<Rightarrow> Inl e
         | Inr p \<Rightarrow> Inr (Some (tobytes (native ext) p)))
      else if bpp = 12 then
        (case pack12 ext rawFrame of
           Inl e \<Rightarrow> Inl e
         | Inr p \<Rightarrow> Inr (Some (tobytes (native ext) p)))
      else if bpp = 14 then
        (case pack14 ext rawFrame of
           Inl e \<Rightarrow> Inl e
         | Inr p \<Rightarrow> Inr (Some (tobytes (native ext) p)))
      else if bpp = 16 then Inr (Some (tobytes (native ext) rawFrame))
      else Inr None)"

text \<open>
  \<open>DNGBASE.__process__\<close>: the three tag values are read first; the first use of \<open>tile\<close>
  raises when it is unbound; the container then builds the file.
\<close>

definition process :: "externals \<Rightarrow> ndarray \<Rightarrow> DNGTags \<Rightarrow> bool \<Rightarrow> error + 8 word list" where
  "process ext rawFrame tgs cmp =
     (case tag_value tgs ImageWidth of
        Inl e \<Rightarrow> Inl e
      | Inr width \<Rightarrow>
          (case tag_value tgs ImageLength of
             Inl e \<Rightarrow> Inl e
           | Inr len \<Rightarrow>
               (case tag_value tgs BitsPerSample of
                  Inl e \<Rightarrow> Inl e
                | Inr bpp \<Rightarrow>
                    (case select_tile ext rawFrame width len bpp cmp of
                       Inl e \<Rightarrow> Inl e
                     | Inr None \<Rightarrow> Inl (UnboundLocalError ''tile'')
                     | Inr (Some tile) \<Rightarrow>
                         dng_write ext tile (if cmp then LJ92 else Uncompressed)
                           (tags_list tgs)))))"

section \<open>Conversion\<close>

text \<open>
  The file system as \<open>convert\<close> sees it: the contents of the files, which paths
  \<open>open(path, "wb")\<close> accepts, and how a write goes: \<open>write_fails path buf\<close> is \<open>None\<close> when
  all of \<open>buf\<close> reaches the file, and \<open>Some n\<close> when the write raises after \<open>n\<close> bytes.
\<close>

record filesystem =
  files :: "string \<rightharpoonup> 8 word list"
  writable :: "string \<Rightarrow> bool"
  write_fails :: "string \<Rightarrow> 8 word list \<Rightarrow> nat option"

text \<open>
  \<open>with open(path, "wb") as outfile: outfile.write(buf)\<close>. A failing \<open>open\<close> changes
  nothing. A successful one creates the file or empties it; a write that raises leaves
  the bytes that reached the file, and the \<open>with\<close> block closes it.
\<close>

definition write_file ::
  "filesystem \<Rightarrow> string \<Rightarrow> 8 word list \<Rightarrow> (error + unit) \<times> filesystem" where
  "write_file fs p buf =
     (if \<not> writable fs p then (Inl (OSError p), fs)
      else
        (let opened = fs\<lparr>files := (files fs)(p \<mapsto> [])\<rparr> in
         case write_fails fs p buf of
           None \<Rightarrow> (Inr (), opened\<lparr>files := (files opened)(p \<mapsto> buf)\<rparr>)
         | Some n \<Rightarrow> (Inl (OSError p), opened\<lparr>files := (files opened)(p \<mapsto> take n buf)\<rparr>)))"

datatype conversion_output = Buffer "8 word list" | OutputPath string

text \<open>\<open>str.endswith\<close>\<close>

definition endswith :: "string \<Rightarrow> string \<Rightarrow> bool" where
  "endswith s suf = (length suf \<le> length s \<and> drop (length s - length suf) s = suf)"

text \<open>\<open>os.path.join\<close> of two components, on POSIX.\<close>

definition path_join :: "string \<Rightarrow> string \<Rightarrow> string" where
  "path_join a b =
     (if b \<noteq> [] \<and> hd b = CHR ''/'' then b
      else if a = [] \<or> last a = CHR ''/'' then a @ b
      else a @ ''/'' @ b)"

text \<open>
  Lines 115 to 122 of \<open>convert\<close>: the test that options were set, then validation,
  unpacking, filtering and processing. The second component is the warnings emitted.
\<close>

definition produce ::
  "externals \<Rightarrow> converter_class \<Rightarrow> converter \<Rightarrow> ndarray \<Rightarrow> (error + 8 word list) \<times> string list"
  where
  "produce ext cls self img =
     (case tags self of
        None \<Rightarrow> (Inl (Exception ''Options have not been set!''), [])
      | Some tgs \<Rightarrow>
          (case data_condition cls img of
             Inl e \<Rightarrow> (Inl e, [])
           | Inr ws \<Rightarrow>
               (case unpack_pixels cls img of
                  Inl e \<Rightarrow> (Inl e, ws)
                | Inr unpacked \<Rightarrow>
                    (case filter_stage unpacked (filter_fn self) of
                       Inl e \<Rightarrow> (Inl e, ws)
                     | Inr filtered \<Rightarrow>
                         (process ext filtered tgs (compress self = Some True), ws)))))"

text \<open>The name under which \<open>convert\<close> writes: the suffix is added, then the path joined.\<close>

definition output_name :: "string \<Rightarrow> string \<Rightarrow> string" where
  "output_name p filename =
     path_join p (if \<not> endswith filename ''.dng'' then filename @ ''.dng'' else filename)"

text \<open>
  Lines 124 to 136 of \<open>convert\<close>: with a non-empty file name the buffer is written and
  the path returned, otherwise the buffer is returned. \<open>os.path.join\<close> raises on a path
  that is \<open>None\<close>; an error of \<open>open\<close> or of \<open>write\<close> is the result, with the file system
  as the failed write left it.
\<close>

definition deliver ::
  "converter \<Rightarrow> filesystem \<Rightarrow> 8 word list \<Rightarrow> string \<Rightarrow>
   (error + conversion_output) \<times> filesystem" where
  "deliver self fs buf filename =
     (if 0 < length filename then
        (case path self of
           None \<Rightarrow> (Inl (TypeError ''expected str, bytes or os.PathLike object, not NoneType''), fs)
         | Some p \<Rightarrow>
             (let outputDNG = output_name p filename in
              case write_file fs outputDNG buf of
                (Inl e, fs') \<Rightarrow> (Inl e, fs')
              | (Inr _, fs') \<Rightarrow> (Inr (OutputPath outputDNG), fs')))
      else (Inr (Buffer buf), fs))"

text \<open>\<open>DNGBASE.convert(image, filename)\<close>: result, file system afterwards, warnings.\<close>

definition convert ::
  "externals \<Rightarrow> converter_class \<Rightarrow> converter \<Rightarrow> filesystem \<Rightarrow> ndarray \<Rightarrow> string \<Rightarrow>
   (error + conversion_output) \<times> filesystem \<times> string list" where
  "convert ext cls self fs img filename =
     (case produce ext cls self img of
        (Inl e, ws) \<Rightarrow> (Inl e, fs, ws)
      | (Inr buf, ws) \<Rightarrow>
          (case deliver self fs buf filename of (res, fs') \<Rightarrow> (res, fs', ws)))"

text \<open>
  Stand-ins for the collaborators, to run the converter on concrete inputs: the packers
  return the frame, the codec and the container return the strip unchanged.
\<close>

definition plain_externals :: externals where
  "plain_externals =
     \<lparr>pack10 = (\<lambda>a. Inr a), pack12 = (\<lambda>a. Inr a), pack14 = (\<lambda>a. Inr a),
      pack16tolj = (\<lambda>a w l b. Inr (tobytes Little a)),
      dng_write = (\<lambda>tile c ts. Inr tile), native = Little\<rparr>"

text \<open>An empty file system where every open and every write goes through.\<close>

definition empty_fs :: filesystem where
  "empty_fs = \<lparr>files = Map.empty, writable = (\<lambda>p. True), write_fails = (\<lambda>p buf. None)\<rparr>"


text \<open>A tag set with the three mandatory tags, for a frame of the given size and depth.\<close>

definition basic_tags :: "int \<Rightarrow> int \<Rightarrow> int \<Rightarrow> DNGTags" where
  "basic_tags w h bpp =
     [(ImageWidth, \<lparr>tagId = ImageWidth, rawValue = [w]\<rparr>),
      (ImageLength, \<lparr>tagId = ImageLength, rawValue = [h]\<rparr>),
      (BitsPerSample, \<lparr>tagId = BitsPerSample, rawValue = [bpp]\<rparr>)]"

section \<open>Auxiliary facts\<close>

subsection \<open>Rows of equal length, slices\<close>

lemma nth_concat_uniform:
  "\<forall>row \<in> set rows. length row = w \<Longrightarrow> r < length rows \<Longrightarrow> c < w \<Longrightarrow>
   concat rows ! (r * w + c) = rows ! r ! c"
proof (induction rows arbitrary: r)
  case Nil then show ?case by simp
next
  case (Cons a rows)
  show ?case
  proof (cases r)
    case 0 with Cons.prems show ?thesis by (simp add: nth_append)
  next
    case (Suc r')
    with Cons.prems have "concat rows ! (r' * w + c) = rows ! r' ! c"
      by (intro Cons.IH) auto
    with Suc Cons.prems show ?thesis by (simp add: nth_append add.assoc)
  qed
qed

lemma length_concat_uniform:
  "\<forall>row \<in> set rows. length row = w \<Longrightarrow> length (concat rows) = length rows * w"
  by (induction rows) auto

lemma slice_len_5: "k < 5 \<Longrightarrow> slice_len k 5 (5 * n) = n"
  unfolding slice_len_def by (cases n) auto

lemma slice_len_3: "k < 3 \<Longrightarrow> slice_len k 3 (3 * n) = n"
  unfolding slice_len_def by (cases n) auto

lemma slice_len_2: "k < 2 \<Longrightarrow> slice_len k 2 (2 * n) = n"
  unfolding slice_len_def by (cases n) auto

lemma length_col_slice: "length (col_slice s k xs) = slice_len s k (length xs)"
  by (simp add: col_slice_def)

lemma nth_col_slice:
  "j < slice_len s k (length xs) \<Longrightarrow> col_slice s k xs ! j = xs ! (s + j * k)"
  by (simp add: col_slice_def)

lemma length_col_assign: "length (col_assign s k xs vs) = length xs"
  by (simp add: col_assign_def)

lemma nth_col_assign:
  "i < length xs \<Longrightarrow> col_assign s k xs vs ! i =
     (if s \<le> i \<and> (i - s) mod k = 0 then vs ! ((i - s) div k) else xs ! i)"
  by (simp add: col_assign_def)

lemma length_row_ior: "length (row_ior b row) = length row"
  by (simp add: row_ior_def length_col_assign)

lemma mod5_small: "d < 5 \<Longrightarrow> (5 * g + d) mod 5 = (d::nat)"
  by simp

lemma group_index_5:
  assumes k: "k < 5" and b: "b < 5"
  shows "(b \<le> 5 * g + k \<and> (5 * g + k - b) mod 5 = 0) = (k = (b::nat))"
proof (cases "k = b")
  case True then show ?thesis by simp
next
  case False
  have "(5 * g + k - b) mod 5 \<noteq> 0" if le: "b \<le> 5 * g + k"
  proof (cases "b < k")
    case True
    then obtain d where d: "k = b + d" "0 < d" by (auto dest: less_imp_add_positive)
    have "5 * g + k - b = 5 * g + d" using d by simp
    moreover have "d < 5" using d k by simp
    ultimately show ?thesis using d(2) by (simp only: mod5_small)
  next
    case nlt: False
    with False have "k < b" by simp
    then obtain d where d: "b = k + d" "0 < d" by (auto dest: less_imp_add_positive)
    have d5: "d < 5" using d b by simp
    then obtain e where e: "5 = d + e" "0 < e" by (auto dest: less_imp_add_positive)
    from le d obtain g' where g': "g = Suc g'" by (cases g) auto
    have "5 * g + k - b = 5 * g' + e" unfolding g' d(1) using e(1) by simp
    moreover have "e < 5" using e d by simp
    ultimately show ?thesis using e(2) by (simp only: mod5_small)
  qed
  with False show ?thesis by fastforce
qed

lemma group_div_5: "(5 * g + b - b) div 5 = (g::nat)"
  by simp

lemma nth_row_ior:
  assumes len: "length row = 5 * n" and b: "b < 4" and g: "g < n" and k: "k < 5"
  shows "row_ior b row ! (5 * g + k) =
     (if k = b then row ! (5 * g + k) OR (drop_bit ((b + 1) * 2) (row ! (5 * g + 4)) AND 3)
      else row ! (5 * g + k))"
proof -
  have i: "5 * g + k < length row" using len g k by simp
  have b5: "b < 5" using b by simp
  have lb: "slice_len b 5 (length row) = n" 
    unfolding len using b5 by (rule slice_len_5)
  have l4: "slice_len 4 5 (length row) = n"
    unfolding len by (rule slice_len_5) simp
  have "col_slice b 5 row ! g = row ! (b + g * 5)"
    by (rule nth_col_slice) (simp add: lb g)
  then have sb: "col_slice b 5 row ! g = row ! (5 * g + b)"
    by (simp only: add.commute mult.commute)
  have "col_slice 4 5 row ! g = row ! (4 + g * 5)"
    by (rule nth_col_slice) (simp add: l4 g)
  then have s4: "col_slice 4 5 row ! g = row ! (5 * g + 4)"
    by (simp only: add.commute mult.commute)
  have rhs: "(map2 (OR) (col_slice b 5 row)
          (bcast (slice_len b 5 (length row))
             (map (\<lambda>x. drop_bit ((b + 1) * 2) x AND 3) (col_slice 4 5 row)))) ! g
        = row ! (5 * g + b) OR (drop_bit ((b + 1) * 2) (row ! (5 * g + 4)) AND 3)"
    unfolding lb bcast_def using g sb s4 by (simp add: length_col_slice lb l4)
  have at: "row_ior b row ! (5 * g + k) =
      (if b \<le> 5 * g + k \<and> (5 * g + k - b) mod 5 = 0
       then (map2 (OR) (col_slice b 5 row)
          (bcast (slice_len b 5 (length row))
             (map (\<lambda>x. drop_bit ((b + 1) * 2) x AND 3) (col_slice 4 5 row)))) ! ((5 * g + k - b) div 5)
       else row ! (5 * g + k))"
    unfolding row_ior_def by (rule nth_col_assign[OF i])
  show ?thesis
  proof (cases "k = b")
    case True
    show ?thesis unfolding at group_index_5[OF k b5] unfolding True group_div_5 rhs by simp
  next
    case False
    then show ?thesis unfolding at group_index_5[OF k b5] by simp
  qed
qed

lemma upt_five: "\<And>m::nat. [m..<m + 5] = [m, m + 1, m + 2, m + 3, m + 4]"
    by (simp add: upt_conv_Cons)

lemma upt_split_five: "[0..<5 * n + 5] = [0..<5 * n] @ [5 * n..<5 * n + 5]"
    by (rule upt_add_eq_append) simp

lemma upt_Suc_five: "[0..<5 * Suc n] = [0..<5 * n] @ [5 * n, 5 * n + 1, 5 * n + 2, 5 * n + 3, 5 * n + 4]"
proof -
  have "5 * Suc n = 5 * n + 5" by simp
  then show ?thesis using upt_five[of "5*n"] upt_split_five[of n] by (simp only:)
qed

lemma fifth_index: "\<And>j. j < 5 \<Longrightarrow> (4 \<le> 5 * n + j \<and> (5 * n + j - 4) mod 5 = 0) = (j = (4::nat))"
    by presburger

lemma kept_indices_5:
  "filter (\<lambda>i. \<not> (4 \<le> i \<and> (i - 4) mod 5 = 0)) [0..<5 * n] =
   concat (map (\<lambda>g. [5 * g, 5 * g + 1, 5 * g + 2, 5 * g + 3]) [0..<n])"
proof (induction n)
  case 0 show ?case by simp
next
  case (Suc n)
  have f: "filter (\<lambda>i. \<not> (4 \<le> i \<and> (i - 4) mod 5 = 0))
             [5 * n, 5 * n + 1, 5 * n + 2, 5 * n + 3, 5 * n + 4] =
           [5 * n, 5 * n + 1, 5 * n + 2, 5 * n + 3]"
    using fifth_index[of 0 n] fifth_index[of 1 n] fifth_index[of 2 n] fifth_index[of 3 n]
      fifth_index[of 4 n]
    by simp
  show ?case unfolding upt_Suc_five filter_append Suc f by simp
qed

lemma col_delete_5:
  assumes "length xs = 5 * n"
  shows "col_delete 4 5 xs =
     concat (map (\<lambda>g. [xs ! (5 * g), xs ! (5 * g + 1), xs ! (5 * g + 2), xs ! (5 * g + 3)]) [0..<n])"
proof -
  have "col_delete 4 5 xs =
        map (\<lambda>i. xs ! i) (concat (map (\<lambda>g. [5 * g, 5 * g + 1, 5 * g + 2, 5 * g + 3]) [0..<n]))"
    unfolding col_delete_def assms kept_indices_5 ..
  then show ?thesis by (simp add: map_concat comp_def)
qed

lemma length_col_delete_5:
  assumes "length xs = 5 * n" shows "length (col_delete 4 5 xs) = 4 * n"
proof -
  let ?rows = "map (\<lambda>g. [xs ! (5 * g), xs ! (5 * g + 1), xs ! (5 * g + 2), xs ! (5 * g + 3)]) [0..<n]"
  have "length (concat ?rows) = length ?rows * 4"
    by (rule length_concat_uniform) auto
  then show ?thesis unfolding col_delete_5[OF assms] by simp
qed

lemma nth_col_delete_5:
  assumes "length xs = 5 * n" "g < n" "k < 4"
  shows "col_delete 4 5 xs ! (4 * g + k) = xs ! (5 * g + k)"
proof -
  let ?rows = "map (\<lambda>g. [xs ! (5 * g), xs ! (5 * g + 1), xs ! (5 * g + 2), xs ! (5 * g + 3)]) [0..<n]"
  have "concat ?rows ! (g * 4 + k) = ?rows ! g ! k"
    using assms by (intro nth_concat_uniform) auto
  then have "col_delete 4 5 xs ! (4 * g + k) = ?rows ! g ! k"
    unfolding col_delete_5[OF assms(1)] by (simp only: mult.commute)
  also have "?rows ! g = [xs ! (5 * g), xs ! (5 * g + 1), xs ! (5 * g + 2), xs ! (5 * g + 3)]"
    using assms(2) by simp
  also have "\<dots> ! k = xs ! (5 * g + k)"
  proof -
    have "k = 0 \<or> k = 1 \<or> k = 2 \<or> k = 3" using assms(3) by arith
    then show ?thesis by (elim disjE) simp_all
  qed
  finally show ?thesis .
qed

subsection \<open>The legacy scheme on one row and on the array\<close>

lemma nth_ior_all:
  assumes len: "length row = 5 * n" and g: "g < n" and k: "k < 5"
  shows "row_ior 3 (row_ior 2 (row_ior 1 (row_ior 0 row))) ! (5 * g + k) =
     (if k < 4 then row ! (5 * g + k) OR (drop_bit ((k + 1) * 2) (row ! (5 * g + 4)) AND 3)
      else row ! (5 * g + k))"
proof -
  let ?r1 = "row_ior 0 row" and ?r2 = "row_ior 1 (row_ior 0 row)"
  let ?r3 = "row_ior 2 (row_ior 1 (row_ior 0 row))"
  have l1: "length ?r1 = 5 * n" and l2: "length ?r2 = 5 * n" and l3: "length ?r3 = 5 * n"
    by (simp_all add: length_row_ior len)
  have s0: "\<And>j. j < 5 \<Longrightarrow> ?r1 ! (5 * g + j) =
      (if j = 0 then row ! (5 * g + j) OR (drop_bit ((0 + 1) * 2) (row ! (5 * g + 4)) AND 3)
       else row ! (5 * g + j))"
    by (rule nth_row_ior[OF len _ g]) simp_all
  have s1: "\<And>j. j < 5 \<Longrightarrow> ?r2 ! (5 * g + j) =
      (if j = 1 then ?r1 ! (5 * g + j) OR (drop_bit ((1 + 1) * 2) (?r1 ! (5 * g + 4)) AND 3)
       else ?r1 ! (5 * g + j))"
    by (rule nth_row_ior[OF l1 _ g]) simp_all
  have s2: "\<And>j. j < 5 \<Longrightarrow> ?r3 ! (5 * g + j) =
      (if j = 2 then ?r2 ! (5 * g + j) OR (drop_bit ((2 + 1) * 2) (?r2 ! (5 * g + 4)) AND 3)
       else ?r2 ! (5 * g + j))"
    by (rule nth_row_ior[OF l2 _ g]) simp_all
  have s3: "\<And>j. j < 5 \<Longrightarrow> row_ior 3 ?r3 ! (5 * g + j) =
      (if j = 3 then ?r3 ! (5 * g + j) OR (drop_bit ((3 + 1) * 2) (?r3 ! (5 * g + 4)) AND 3)
       else ?r3 ! (5 * g + j))"
    by (rule nth_row_ior[OF l3 _ g]) simp_all
  have c4: "?r3 ! (5 * g + 4) = row ! (5 * g + 4)" "?r2 ! (5 * g + 4) = row ! (5 * g + 4)"
      "?r1 ! (5 * g + 4) = row ! (5 * g + 4)"
    using s0[of 4] s1[of 4] s2[of 4] by simp_all
  have "k = 0 \<or> k = 1 \<or> k = 2 \<or> k = 3 \<or> k = 4" using k by arith
  then show ?thesis
    using s3[of k] s2[of k] s1[of k] s0[of k] c4 by (elim disjE) simp_all
qed

lemma ior_loop_5:
  "ior_loop [0, 1, 2, 3] (5 * n) data =
     Inr (map (\<lambda>row. row_ior 3 (row_ior 2 (row_ior 1 (row_ior 0 row)))) data)"
  by (simp add: ior_step_def assignable_def slice_len_5 comp_def)

lemma legacy_unpack_5:
  "legacy_unpack (5 * n) rows8 =
     Inr (4 * n, map (\<lambda>row. col_delete 4 5 (row_ior 3 (row_ior 2 (row_ior 1 (row_ior 0
                  (map (\<lambda>b. push_bit 2 (ucast b :: 16 word)) row)))))) rows8)"
  unfolding legacy_unpack_def Let_def ior_loop_5 by (simp add: slice_len_5 comp_def)

lemma legacy_row:
  assumes len: "length row8 = 5 * n"
  defines "out \<equiv> col_delete 4 5 (row_ior 3 (row_ior 2 (row_ior 1 (row_ior 0
                  (map (\<lambda>b. push_bit 2 (ucast b :: 16 word)) row8)))))"
  shows "length out = 4 * n"
    and "g < n \<Longrightarrow> k < 4 \<Longrightarrow> out ! (4 * g + k) =
          push_bit 2 (ucast (row8 ! (5 * g + k))) OR
          (drop_bit ((k + 1) * 2) (push_bit 2 (ucast (row8 ! (5 * g + 4)) :: 16 word)) AND 3)"
proof -
  let ?row = "map (\<lambda>b. push_bit 2 (ucast b :: 16 word)) row8"
  let ?r4 = "row_ior 3 (row_ior 2 (row_ior 1 (row_ior 0 ?row)))"
  have l: "length ?row = 5 * n" using len by simp
  have l4: "length ?r4 = 5 * n" by (simp add: length_row_ior len)
  show "length out = 4 * n" unfolding out_def by (rule length_col_delete_5[OF l4])
  assume g: "g < n" and k: "k < 4"
  have "out ! (4 * g + k) = ?r4 ! (5 * g + k)"
    unfolding out_def by (rule nth_col_delete_5[OF l4 g k])
  also have "\<dots> = ?row ! (5 * g + k) OR (drop_bit ((k + 1) * 2) (?row ! (5 * g + 4)) AND 3)"
    using k nth_ior_all[OF l g, of k] by simp
  also have "?row ! (5 * g + k) = push_bit 2 (ucast (row8 ! (5 * g + k)))"
    using g k len by simp
  also have "?row ! (5 * g + 4) = push_bit 2 (ucast (row8 ! (5 * g + 4)))"
    using g len by simp
  finally show "out ! (4 * g + k) =
          push_bit 2 (ucast (row8 ! (5 * g + k))) OR
          (drop_bit ((k + 1) * 2) (push_bit 2 (ucast (row8 ! (5 * g + 4)) :: 16 word)) AND 3)" .
qed

lemma row_in_buffer:
  assumes len: "length buf = R * C" and i: "i < R"
  shows "i * C + C \<le> length buf"
proof -
  have "Suc i \<le> R" using i by simp
  then have "Suc i * C \<le> R * C" by (rule mult_le_mono1)
  then show ?thesis unfolding len by (simp add: add.commute)
qed

lemma reshaped_row:
  assumes len: "length buf = R * C" and i: "i < R" and cc: "cc \<le> C"
  shows "take cc (take C (drop (i * C) buf)) = map (\<lambda>j. buf ! (i * C + j)) [0..<cc]"
proof (rule nth_equalityI)
  have b: "i * C + C \<le> length buf" by (rule row_in_buffer[OF len i])
  then show "length (take cc (take C (drop (i * C) buf))) = length (map (\<lambda>j. buf ! (i * C + j)) [0..<cc])"
    using cc by simp
  fix j assume "j < length (take cc (take C (drop (i * C) buf)))"
  then have j: "j < cc" by simp
  then show "take cc (take C (drop (i * C) buf)) ! j = map (\<lambda>j. buf ! (i * C + j)) [0..<cc] ! j"
    using cc b by simp
qed

lemma reshape_crop:
  assumes len: "length buf = R * C" and cr: "cr \<le> R" and cc: "cc \<le> C"
  shows "\<exists>rows. reshape2 (R, C) buf = Inr rows \<and>
           crop2 (cr, cc) rows = map (\<lambda>i. map (\<lambda>j. buf ! (i * C + j)) [0..<cc]) [0..<cr]"
proof -
  let ?rows = "map (\<lambda>i. take C (drop (i * C) buf)) [0..<R]"
  have "reshape2 (R, C) buf = Inr ?rows" by (simp add: reshape2_def len)
  moreover have "crop2 (cr, cc) ?rows = map (\<lambda>i. map (\<lambda>j. buf ! (i * C + j)) [0..<cc]) [0..<cr]"
  proof -
    have "take cr ?rows = map (\<lambda>i. take C (drop (i * C) buf)) [0..<cr]"
      using cr by (simp add: take_map min_def)
    then have "crop2 (cr, cc) ?rows = map (\<lambda>i. take cc (take C (drop (i * C) buf))) [0..<cr]"
      by (simp add: crop2_def comp_def)
    also have "\<dots> = map (\<lambda>i. map (\<lambda>j. buf ! (i * C + j)) [0..<cc]) [0..<cr]"
    proof (rule map_cong[OF refl])
      fix i assume "i \<in> set [0..<cr]"
      then have "i < R" using cr by simp
      then show "take cc (take C (drop (i * C) buf)) = map (\<lambda>j. buf ! (i * C + j)) [0..<cc]"
        by (rule reshaped_row[OF len _ cc])
    qed
    finally show ?thesis .
  qed
  ultimately show ?thesis by blast
qed

lemma unpack_raw_legacy:
  assumes geo: "map_of geometry (select_ver h) = Some ((R, C), (cr, cc))"
    and ver: "select_ver h < 4"
    and cr: "cr \<le> R" and cc: "cc \<le> C" and n: "cc = 5 * n"
    and len: "length buf = R * C"
  shows "\<exists>flat. unpack_raw h buf = Inr (U16 [cr, 4 * n] flat) \<and>
           length flat = cr * (4 * n) \<and>
           (\<forall>r<cr. \<forall>g<n. \<forall>k<4.
              flat ! (r * (4 * n) + (4 * g + k)) =
                push_bit 2 (ucast (buf ! (r * C + (5 * g + k)))) OR
                (drop_bit ((k + 1) * 2) (push_bit 2 (ucast (buf ! (r * C + (5 * g + 4))) :: 16 word))
                   AND 3))"
proof -
  define row8 where "row8 = (\<lambda>i. map (\<lambda>j. buf ! (i * C + j)) [0..<cc])"
  define out where "out = (\<lambda>row :: 8 word list. col_delete 4 5 (row_ior 3 (row_ior 2 (row_ior 1 (row_ior 0
                  (map (\<lambda>b. push_bit 2 (ucast b :: 16 word)) row))))))"
  define d where "d = map (\<lambda>i. out (row8 i)) [0..<cr]"
  from reshape_crop[OF len cr cc] obtain rows where
    rows: "reshape2 (R, C) buf = Inr rows" "crop2 (cr, cc) rows = map row8 [0..<cr]"
    unfolding row8_def by blast
  have l8: "\<And>i. length (row8 i) = 5 * n" by (simp add: row8_def n)
  have lu: "legacy_unpack (5 * n) (map row8 [0..<cr]) = Inr (4 * n, d)"
    unfolding legacy_unpack_5 d_def out_def by (simp add: comp_def)
  have res: "unpack_raw h buf = Inr (U16 [cr, 4 * n] (concat d))"
    unfolding unpack_raw_def Let_def geo using ver cr cc rows lu
    by (simp add: n min_def)
  have lrow: "\<forall>row \<in> set d. length row = 4 * n"
    unfolding d_def out_def using legacy_row(1)[OF l8] by auto
  have ld: "length d = cr" by (simp add: d_def)
  have lflat: "length (concat d) = cr * (4 * n)"
    using length_concat_uniform[OF lrow] ld by simp
  have elems: "concat d ! (r * (4 * n) + (4 * g + k)) =
                push_bit 2 (ucast (buf ! (r * C + (5 * g + k)))) OR
                (drop_bit ((k + 1) * 2) (push_bit 2 (ucast (buf ! (r * C + (5 * g + 4))) :: 16 word))
                   AND 3)" if r: "r < cr" and g: "g < n" and k: "k < 4" for r g k
  proof -
    have "4 * g + k < 4 * n" using g k by simp
    then have "concat d ! (r * (4 * n) + (4 * g + k)) = d ! r ! (4 * g + k)"
      using lrow r ld by (intro nth_concat_uniform) simp_all
    also have "d ! r = out (row8 r)" using r by (simp add: d_def)
    also have "out (row8 r) ! (4 * g + k) =
          push_bit 2 (ucast (row8 r ! (5 * g + k))) OR
          (drop_bit ((k + 1) * 2) (push_bit 2 (ucast (row8 r ! (5 * g + 4)) :: 16 word)) AND 3)"
      unfolding out_def by (rule legacy_row(2)[OF l8 g k])
    also have "row8 r ! (5 * g + k) = buf ! (r * C + (5 * g + k))"
      using g k by (simp add: row8_def n)
    also have "row8 r ! (5 * g + 4) = buf ! (r * C + (5 * g + 4))"
      using g by (simp add: row8_def n)
    finally show ?thesis .
  qed
  show ?thesis using res lflat elems by blast
qed

lemma length_claimed_legacy_row: "length (claimed_legacy_row C cc r buf) = (cc div 5) * 4"
proof -
  let ?rows = "map (\<lambda>g. map (\<lambda>k. claimed_legacy_sample (buf ! (r * C + (5 * g + k)))
                                  (buf ! (r * C + (5 * g + 4))) k) [0..<4]) [0..<cc div 5]"
  have "\<forall>row \<in> set ?rows. length row = 4" by auto
  from length_concat_uniform[OF this] show ?thesis by (simp add: claimed_legacy_row_def)
qed

lemma nth_claimed_legacy_row:
  assumes g: "g < cc div 5" and k: "k < 4"
  shows "claimed_legacy_row C cc r buf ! (g * 4 + k) =
           claimed_legacy_sample (buf ! (r * C + (5 * g + k))) (buf ! (r * C + (5 * g + 4))) k"
proof -
  let ?rows = "map (\<lambda>g. map (\<lambda>k. claimed_legacy_sample (buf ! (r * C + (5 * g + k)))
                                  (buf ! (r * C + (5 * g + 4))) k) [0..<4]) [0..<cc div 5]"
  have "concat ?rows ! (g * 4 + k) = ?rows ! g ! k"
    using g k by (intro nth_concat_uniform) auto
  then show ?thesis using g k by (simp add: claimed_legacy_row_def)
qed

lemma nth_claimed_legacy_pixels:
  assumes eq: "claimed_legacy_pixels C cr cc buf = U16 shp flat"
    and r: "r < cr" and g: "g < cc div 5" and k: "k < 4"
  shows "flat ! (r * ((cc div 5) * 4) + (g * 4 + k)) =
           claimed_legacy_sample (buf ! (r * C + (5 * g + k))) (buf ! (r * C + (5 * g + 4))) k"
proof -
  let ?rows = "map (\<lambda>r. claimed_legacy_row C cc r buf) [0..<cr]"
  have flat: "flat = concat ?rows" using eq by (simp add: claimed_legacy_pixels_def)
  have u: "\<forall>row \<in> set ?rows. length row = (cc div 5) * 4"
    by (auto simp: length_claimed_legacy_row)
  have "g * 4 + k < (cc div 5) * 4" using g k by simp
  then have "concat ?rows ! (r * ((cc div 5) * 4) + (g * 4 + k)) = ?rows ! r ! (g * 4 + k)"
    using u r by (intro nth_concat_uniform) simp_all
  also have "?rows ! r = claimed_legacy_row C cc r buf" using r by simp
  finally show ?thesis unfolding flat by (simp only: nth_claimed_legacy_row[OF g k])
qed

text \<open>
  The fifth column is shifted left by 2 with the others before the loop reads it, so
  the slice taken for offset \<open>k\<close> is bits \<open>2k\<close> and \<open>2k + 1\<close> of the packed byte.
\<close>

lemma legacy_slice_of_byte:
  assumes "k < 4"
  shows "drop_bit ((k + 1) * 2) (push_bit 2 (ucast (b :: 8 word) :: 16 word)) AND 3 =
         ucast (drop_bit (2 * k) b AND 3)"
proof -
  have m3: "(3 :: 16 word) = mask 2" "(3 :: 8 word) = mask 2"
    by (simp_all add: mask_eq_exp_minus_1)
  have "k = 0 \<or> k = 1 \<or> k = 2 \<or> k = 3" using assms by arith
  then show ?thesis
    unfolding m3
    by (elim disjE; intro bit_word_eqI) (auto simp: bit_simps)
qed

subsection \<open>The modern scheme on one row and on the array\<close>

lemma and_15_mask: "(y :: 16 word) AND 15 = take_bit 4 y"
proof -
  have "(15 :: 16 word) = mask 4" by (simp add: mask_eq_exp_minus_1)
  then show ?thesis by (simp add: take_bit_eq_mask)
qed

lemma nibble_add_eq_or:
  "push_bit 4 (x :: 16 word) + (y AND 15) = push_bit 4 x OR (y AND 15)"
  unfolding and_15_mask
  by (rule disjunctive_add_eq_or) (simp add: bit_eq_iff bit_simps)

lemma map2_replicate_left:
  "map2 f (replicate (length ys) z) ys = map (f z) ys"
  by (induction ys) simp_all

lemma map2_map_left: "map2 f (map g ys) ys = map (\<lambda>y. f (g y) y) ys"
  by (induction ys) simp_all

lemma bin_bcast_same: "length xs = length ys \<Longrightarrow> bin_bcast f xs ys = map2 f xs ys"
  by (simp add: bin_bcast_def bcast_def)

lemma nth_even_samples:
  assumes len: "length row = 3 * n" and t: "t < n"
  shows "length (even_samples row) = n"
    and "even_samples row ! t = push_bit 4 (row ! (3 * t)) + (row ! (3 * t + 2) AND 15)"
proof -
  have l0: "slice_len 0 3 (length row) = n" and l2: "slice_len 2 3 (length row) = n"
    unfolding len by (rule slice_len_3, simp)+
  have e: "even_samples row =
      map2 (+) (map (push_bit 4) (col_slice 0 3 row)) (map (\<lambda>x. x AND 15) (col_slice 2 3 row))"
    unfolding even_samples_def by (rule bin_bcast_same) (simp add: length_col_slice l0 l2)
  show "length (even_samples row) = n"
    unfolding e by (simp add: length_col_slice l0 l2)
  have "col_slice 0 3 row ! t = row ! (0 + t * 3)"
    by (rule nth_col_slice) (simp add: l0 t)
  moreover have "col_slice 2 3 row ! t = row ! (2 + t * 3)"
    by (rule nth_col_slice) (simp add: l2 t)
  ultimately show "even_samples row ! t = push_bit 4 (row ! (3 * t)) + (row ! (3 * t + 2) AND 15)"
    unfolding e using t by (simp add: length_col_slice l0 l2 mult.commute add.commute)
qed

lemma nth_odd_samples:
  assumes len: "length row = 3 * n" and t: "t < n"
  shows "length (odd_samples row) = n"
    and "odd_samples row ! t =
           push_bit 4 (row ! (3 * t + 1)) + (drop_bit 4 (row ! (3 * t + 2)) AND 15)"
proof -
  have l1: "slice_len 1 3 (length row) = n" and l2: "slice_len 2 3 (length row) = n"
    unfolding len by (rule slice_len_3, simp)+
  have e: "odd_samples row =
      map2 (+) (map (push_bit 4) (col_slice 1 3 row))
               (map (\<lambda>x. drop_bit 4 x AND 15) (col_slice 2 3 row))"
    unfolding odd_samples_def by (rule bin_bcast_same) (simp only: length_map length_col_slice l1 l2)
  show "length (odd_samples row) = n"
    unfolding e by (simp only: length_map length_zip length_col_slice l1 l2 min.idem)
  have "col_slice 1 3 row ! t = row ! (1 + t * 3)"
    by (rule nth_col_slice) (simp only: l1 t)
  moreover have "col_slice 2 3 row ! t = row ! (2 + t * 3)"
    by (rule nth_col_slice) (simp add: l2 t)
  ultimately show "odd_samples row ! t =
           push_bit 4 (row ! (3 * t + 1)) + (drop_bit 4 (row ! (3 * t + 2)) AND 15)"
    unfolding e using t l1 l2 by (simp add: length_col_slice mult.commute add.commute)
qed

lemma modern_store_3:
  assumes s: "start < 2" and len: "length unpacked = length data"
  shows "modern_store start (3 * n) (2 * n) rhs unpacked data =
     Inr (map2 (\<lambda>u row. col_assign start 2 u (bcast n (rhs row))) unpacked data)"
proof -
  have "slice_len start 3 (3 * n) = n" "slice_len 2 3 (3 * n) = n" "slice_len start 2 (2 * n) = n"
    using s by (simp_all add: slice_len_3 slice_len_2)
  then show ?thesis
    unfolding modern_store_def by (simp add: bcast_len_def assignable_def)
qed

lemma modern_unpack_3:
  assumes len: "length rows8 = nrows"
  shows "modern_unpack nrows (3 * n) rows8 =
     Inr (2 * n, map (\<lambda>row8. col_assign 1 2
                        (col_assign 0 2 (replicate (2 * n) 0)
                           (bcast n (even_samples (map ucast row8))))
                        (bcast n (odd_samples (map ucast row8)))) rows8)"
proof -
  let ?data = "map (map (\<lambda>b. ucast b :: 16 word)) rows8"
  let ?z = "replicate nrows (replicate (2 * n) (0 :: 16 word))"
  let ?u1 = "map (\<lambda>row. col_assign 0 2 (replicate (2 * n) 0) (bcast n (even_samples row))) ?data"
  have w: "(2 * (3 * n)) div 3 = 2 * n" by simp
  have z: "?z = replicate (length ?data) (replicate (2 * n) 0)" using len by simp
  have "modern_store 0 (3 * n) (2 * n) even_samples ?z ?data =
     Inr (map2 (\<lambda>u row. col_assign 0 2 u (bcast n (even_samples row))) ?z ?data)"
    by (rule modern_store_3) (simp_all add: len)
  also have "map2 (\<lambda>u row. col_assign 0 2 u (bcast n (even_samples row))) ?z ?data = ?u1"
    unfolding z by (rule map2_replicate_left)
  finally have s0: "modern_store 0 (3 * n) (2 * n) even_samples ?z ?data = Inr ?u1" .
  have "modern_store 1 (3 * n) (2 * n) odd_samples ?u1 ?data =
     Inr (map2 (\<lambda>u row. col_assign 1 2 u (bcast n (odd_samples row))) ?u1 ?data)"
    by (rule modern_store_3) simp_all
  also have "map2 (\<lambda>u row. col_assign 1 2 u (bcast n (odd_samples row))) ?u1 ?data =
     map (\<lambda>row. col_assign 1 2 (col_assign 0 2 (replicate (2 * n) 0) (bcast n (even_samples row)))
                   (bcast n (odd_samples row))) ?data"
    by (rule map2_map_left)
  finally have s1: "modern_store 1 (3 * n) (2 * n) odd_samples ?u1 ?data =
     Inr (map (\<lambda>row. col_assign 1 2 (col_assign 0 2 (replicate (2 * n) 0) (bcast n (even_samples row)))
                   (bcast n (odd_samples row))) ?data)" .
  show ?thesis
    unfolding modern_unpack_def Let_def w s0 sum.case s1 by (simp add: comp_def)
qed

lemma parity_even: "(0 \<le> 2 * t \<and> (2 * t - 0) mod 2 = 0) = True" "(2 * t - 0) div 2 = (t::nat)"
  by simp_all

lemma parity_odd:
  "(1 \<le> 2 * t + 1 \<and> (2 * t + 1 - 1) mod 2 = 0) = True" "(2 * t + 1 - 1) div 2 = (t::nat)"
  "(1 \<le> 2 * t \<and> (2 * t - 1) mod 2 = 0) = False"
  "(0 \<le> 2 * t + 1 \<and> (2 * t + 1 - 0) mod 2 = 0) = False"
  by simp_all presburger

lemma modern_row:
  assumes len: "length row8 = 3 * n"
  defines "out \<equiv> col_assign 1 2
                        (col_assign 0 2 (replicate (2 * n) 0)
                           (bcast n (even_samples (map ucast row8))))
                        (bcast n (odd_samples (map ucast row8)))"
  shows "length out = 2 * n"
    and "t < n \<Longrightarrow> out ! (2 * t) =
           push_bit 4 (ucast (row8 ! (3 * t))) OR (ucast (row8 ! (3 * t + 2)) AND 15)"
    and "t < n \<Longrightarrow> out ! (2 * t + 1) =
           push_bit 4 (ucast (row8 ! (3 * t + 1))) OR
           (drop_bit 4 (ucast (row8 ! (3 * t + 2)) :: 16 word) AND 15)"
proof -
  let ?row = "map (\<lambda>b. ucast b :: 16 word) row8"
  let ?u1 = "col_assign 0 2 (replicate (2 * n) 0) (bcast n (even_samples ?row))"
  have l: "length ?row = 3 * n" using len by simp
  have lu1: "length ?u1 = 2 * n" by (simp add: length_col_assign)
  show "length out = 2 * n" unfolding out_def by (simp add: length_col_assign)
  have be: "bcast n (even_samples ?row) = even_samples ?row" if "t < n" for t
    using nth_even_samples(1)[OF l that] by (simp add: bcast_def)
  have bo: "bcast n (odd_samples ?row) = odd_samples ?row" if "t < n" for t
    using nth_odd_samples(1)[OF l that] by (simp add: bcast_def)
  {
    assume t: "t < n"
    have i: "2 * t < length ?u1" "2 * t < length (replicate (2 * n) (0 :: 16 word))"
      using t lu1 by simp_all
    have "out ! (2 * t) = ?u1 ! (2 * t)"
      unfolding out_def nth_col_assign[OF i(1)] parity_odd by simp
    also have "\<dots> = even_samples ?row ! t"
      unfolding nth_col_assign[OF i(2)] parity_even be[OF t] by simp
    also have "\<dots> = push_bit 4 (?row ! (3 * t)) + (?row ! (3 * t + 2) AND 15)"
      by (rule nth_even_samples(2)[OF l t])
    also have "\<dots> = push_bit 4 (?row ! (3 * t)) OR (?row ! (3 * t + 2) AND 15)"
      by (rule nibble_add_eq_or)
    also have "?row ! (3 * t) = ucast (row8 ! (3 * t))" using t len by simp
    also have "?row ! (3 * t + 2) = ucast (row8 ! (3 * t + 2))" using t len by simp
    finally show "out ! (2 * t) =
           push_bit 4 (ucast (row8 ! (3 * t))) OR (ucast (row8 ! (3 * t + 2)) AND 15)" .
  }
  {
    assume t: "t < n"
    have i: "2 * t + 1 < length ?u1" using t lu1 by simp
    have "out ! (2 * t + 1) = odd_samples ?row ! t"
      unfolding out_def nth_col_assign[OF i] parity_odd bo[OF t] by simp
    also have "\<dots> = push_bit 4 (?row ! (3 * t + 1)) + (drop_bit 4 (?row ! (3 * t + 2)) AND 15)"
      by (rule nth_odd_samples(2)[OF l t])
    also have "\<dots> = push_bit 4 (?row ! (3 * t + 1)) OR (drop_bit 4 (?row ! (3 * t + 2)) AND 15)"
      by (rule nibble_add_eq_or)
    also have "?row ! (3 * t + 1) = ucast (row8 ! (3 * t + 1))" using t len by simp
    also have "?row ! (3 * t + 2) = ucast (row8 ! (3 * t + 2))" using t len by simp
    finally show "out ! (2 * t + 1) =
           push_bit 4 (ucast (row8 ! (3 * t + 1))) OR
           (drop_bit 4 (ucast (row8 ! (3 * t + 2)) :: 16 word) AND 15)" .
  }
qed

lemma unpack_raw_modern:
  assumes geo: "map_of geometry (select_ver h) = Some ((R, C), (cr, cc))"
    and ver: "\<not> select_ver h < 4"
    and cr: "cr \<le> R" and cc: "cc \<le> C" and n: "cc = 3 * n"
    and len: "length buf = R * C"
  shows "\<exists>flat. unpack_raw h buf = Inr (U16 [cr, 2 * n] flat) \<and>
           length flat = cr * (2 * n) \<and>
           (\<forall>r<cr. \<forall>t<n.
              flat ! (r * (2 * n) + 2 * t) =
                push_bit 4 (ucast (buf ! (r * C + 3 * t))) OR
                (ucast (buf ! (r * C + (3 * t + 2))) AND 15) \<and>
              flat ! (r * (2 * n) + (2 * t + 1)) =
                push_bit 4 (ucast (buf ! (r * C + (3 * t + 1)))) OR
                (drop_bit 4 (ucast (buf ! (r * C + (3 * t + 2))) :: 16 word) AND 15))"
proof -
  define row8 where "row8 = (\<lambda>i. map (\<lambda>j. buf ! (i * C + j)) [0..<cc])"
  define out where "out = (\<lambda>row :: 8 word list. col_assign 1 2
                        (col_assign 0 2 (replicate (2 * n) (0 :: 16 word))
                           (bcast n (even_samples (map ucast row))))
                        (bcast n (odd_samples (map ucast row))))"
  define d where "d = map (\<lambda>i. out (row8 i)) [0..<cr]"
  from reshape_crop[OF len cr cc] obtain rows where
    rows: "reshape2 (R, C) buf = Inr rows" "crop2 (cr, cc) rows = map row8 [0..<cr]"
    unfolding row8_def by blast
  have l8: "\<And>i. length (row8 i) = 3 * n" by (simp add: row8_def n)
  have "length (map row8 [0..<cr]) = cr" by simp
  then have lu: "modern_unpack cr (3 * n) (map row8 [0..<cr]) = Inr (2 * n, d)"
    unfolding d_def out_def by (simp add: modern_unpack_3 comp_def)
  have res: "unpack_raw h buf = Inr (U16 [cr, 2 * n] (concat d))"
    unfolding unpack_raw_def Let_def geo using ver cr cc rows lu
    by (simp add: n min_def)
  have lrow: "\<forall>row \<in> set d. length row = 2 * n"
    unfolding d_def out_def using modern_row(1)[OF l8] by auto
  have ld: "length d = cr" by (simp add: d_def)
  have lflat: "length (concat d) = cr * (2 * n)"
    using length_concat_uniform[OF lrow] ld by simp
  have elems: "concat d ! (r * (2 * n) + 2 * t) =
                push_bit 4 (ucast (buf ! (r * C + 3 * t))) OR
                (ucast (buf ! (r * C + (3 * t + 2))) AND 15) \<and>
              concat d ! (r * (2 * n) + (2 * t + 1)) =
                push_bit 4 (ucast (buf ! (r * C + (3 * t + 1)))) OR
                (drop_bit 4 (ucast (buf ! (r * C + (3 * t + 2))) :: 16 word) AND 15)"
    if r: "r < cr" and t: "t < n" for r t
  proof -
    have dr: "d ! r = out (row8 r)" using r by (simp add: d_def)
    have b0: "row8 r ! (3 * t) = buf ! (r * C + 3 * t)"
      and b1: "row8 r ! (3 * t + 1) = buf ! (r * C + (3 * t + 1))"
      and b2: "row8 r ! (3 * t + 2) = buf ! (r * C + (3 * t + 2))"
      using t by (simp_all add: row8_def n)
    have "2 * t < 2 * n" using t by simp
    then have "concat d ! (r * (2 * n) + 2 * t) = d ! r ! (2 * t)"
      using lrow r ld by (intro nth_concat_uniform) simp_all
    also have "\<dots> = push_bit 4 (ucast (row8 r ! (3 * t))) OR (ucast (row8 r ! (3 * t + 2)) AND 15)"
      unfolding dr out_def by (rule modern_row(2)[OF l8 t])
    finally have e: "concat d ! (r * (2 * n) + 2 * t) =
        push_bit 4 (ucast (buf ! (r * C + 3 * t))) OR (ucast (buf ! (r * C + (3 * t + 2))) AND 15)"
      unfolding b0 b2 .
    have "2 * t + 1 < 2 * n" using t by simp
    then have "concat d ! (r * (2 * n) + (2 * t + 1)) = d ! r ! (2 * t + 1)"
      using lrow r ld by (intro nth_concat_uniform) simp_all
    also have "\<dots> = push_bit 4 (ucast (row8 r ! (3 * t + 1))) OR
           (drop_bit 4 (ucast (row8 r ! (3 * t + 2)) :: 16 word) AND 15)"
      unfolding dr out_def by (rule modern_row(3)[OF l8 t])
    finally have o: "concat d ! (r * (2 * n) + (2 * t + 1)) =
        push_bit 4 (ucast (buf ! (r * C + (3 * t + 1)))) OR
           (drop_bit 4 (ucast (buf ! (r * C + (3 * t + 2))) :: 16 word) AND 15)"
      unfolding b1 b2 .
    show ?thesis using e o by (rule conjI)
  qed
  show ?thesis using res lflat elems by blast
qed

lemma unpack_pixels_u8:
  assumes "is_rpicam cls" and "tag_value (model_tags cls) ImageLength = Inr height"
  shows "unpack_pixels cls (U8 shp buf) = unpack_raw height buf"
  using assms by (simp add: unpack_pixels_def)

subsection \<open>Strips and output names\<close>

lemma length_u16_bytes: "length (u16_bytes bo x) = 2"
  by (cases bo) (simp_all add: u16_bytes_def)

lemma endswith_append: "endswith b suf \<Longrightarrow> endswith (a @ b) suf"
  by (auto simp: endswith_def)

lemma endswith_self: "endswith (a @ suf) suf"
  by (simp add: endswith_def)

lemma endswith_path_join: "endswith b suf \<Longrightarrow> endswith (path_join a b) suf"
  unfolding path_join_def using endswith_append[of b suf] endswith_append[of b suf "a @ ''/''"]
  by auto

lemma endswith_output_name: "endswith (output_name p filename) ''.dng''"
  unfolding output_name_def
  by (rule endswith_path_join) (simp add: endswith_self)

section \<open>Verified properties\<close>

text \<open>
  C1. A tag set that lacks \<open>ImageWidth\<close>, \<open>ImageLength\<close> or \<open>BitsPerSample\<close> makes
  \<open>options(tags, path, compress)\<close> raise, with the message of the first of the three
  that is absent, and without configuring the object; no array is involved. A converter
  that was never configured refuses to convert, whatever the image.
\<close>

theorem options_rejects_missing_tag:
  assumes "tags_get tgs ImageWidth = None \<or> tags_get tgs ImageLength = None \<or>
           tags_get tgs BitsPerSample = None"
  shows "options self tgs pth cmp =
           Inl (Exception
             (if tags_get tgs ImageWidth = None then ''No width is defined in tags.''
              else if tags_get tgs ImageLength = None then ''No height is defined in tags.''
              else ''Bit per pixel is not defined.''))
         \<and> convert ext cls init fs img filename =
             (Inl (Exception ''Options have not been set!''), fs, [])"
  using assms
  by (auto simp: options_def tags_condition_def truthy_def convert_def produce_def init_def)

theorem options_rejects_missing_tag_witness:
  "options init [(ImageLength, \<lparr>tagId = ImageLength, rawValue = [1080]\<rparr>),
                 (BitsPerSample, \<lparr>tagId = BitsPerSample, rawValue = [12]\<rparr>)] ''/tmp'' False =
     Inl (Exception ''No width is defined in tags.'')
   \<and> convert plain_externals DNGBASE init empty_fs (U16 [1, 2] [1, 2]) ''frame'' =
       (Inl (Exception ''Options have not been set!''), empty_fs, [])"
  using options_rejects_missing_tag
    [of "[(ImageLength, \<lparr>tagId = ImageLength, rawValue = [1080]\<rparr>),
          (BitsPerSample, \<lparr>tagId = BitsPerSample, rawValue = [12]\<rparr>)]"
        init "''/tmp''" False plain_externals DNGBASE empty_fs "U16 [1, 2] [1, 2]" "''frame''"]
  by (simp add: tags_get_def)

text \<open>
  C2 says that the four data columns are shifted and that the slice comes from the
  fifth column by a right shift of \<open>(offset + 1) * 2\<close> bits. The code shifts the fifth
  column left by 2 with the rest before the loop reads it, so the samples differ: the
  group 255, 0, 170, 85, 228 unpacks to 1020, 1, 682, 343, where the claim's formula
  gives 1021, 2, 683, 340; and for the height 760 the unpacked array is not the one the
  claim's formula gives.
\<close>

theorem legacy_claimed_formula_counterexample:
  "legacy_unpack 5 [[255, 0, 170, 85, 228]] = Inr (4, [[1020, 1, 682, 343]]) \<and>
   [claimed_legacy_sample 255 228 0, claimed_legacy_sample 0 228 1,
    claimed_legacy_sample 170 228 2, claimed_legacy_sample 85 228 3] = [1021, 2, 683, 340] \<and>
   unpack_pixels (RPICAM2DNG (basic_tags 1012 760 10))
     (U8 [983040] (map of_nat [0..<768 * 1280])) \<noteq>
   Inr (claimed_legacy_pixels 1280 760 1265 (map of_nat [0..<768 * 1280]))"
proof -
  let ?buf = "map of_nat [0..<768 * 1280] :: 8 word list"
  have row: "legacy_unpack 5 [[255, 0, 170, 85, 228]] = Inr (4, [[1020, 1, 682, 343]])"
    by code_simp
  have claimed: "[claimed_legacy_sample 255 228 0, claimed_legacy_sample 0 228 1,
      claimed_legacy_sample 170 228 2, claimed_legacy_sample 85 228 3] = [1021, 2, 683, 340]"
    by (simp add: claimed_legacy_sample_def)
  have height: "tag_value (model_tags (RPICAM2DNG (basic_tags 1012 760 10))) ImageLength = Inr 760"
    by (simp add: tag_value_def tags_get_def basic_tags_def)
  have geo: "map_of geometry (select_ver 760) = Some ((768, 1280), (760, 1265))"
    by (simp add: select_ver_def geometry_def)
  have ver: "select_ver 760 < 4" by (simp add: select_ver_def)
  have len: "length ?buf = 768 * 1280" by simp
  have "\<exists>flat. unpack_raw 760 ?buf = Inr (U16 [760, 4 * 253] flat) \<and>
           length flat = 760 * (4 * 253) \<and>
           (\<forall>r<760. \<forall>g<253. \<forall>k<4.
              flat ! (r * (4 * 253) + (4 * g + k)) =
                push_bit 2 (ucast (?buf ! (r * 1280 + (5 * g + k)))) OR
                (drop_bit ((k + 1) * 2) (push_bit 2 (ucast (?buf ! (r * 1280 + (5 * g + 4))) :: 16 word))
                   AND 3))"
    by (rule unpack_raw_legacy[OF geo ver _ _ _ len]) simp_all
  then obtain flat where res: "unpack_raw 760 ?buf = Inr (U16 [760, 4 * 253] flat)"
    and el: "\<forall>r<760. \<forall>g<253. \<forall>k<4.
              flat ! (r * (4 * 253) + (4 * g + k)) =
                push_bit 2 (ucast (?buf ! (r * 1280 + (5 * g + k)))) OR
                (drop_bit ((k + 1) * 2) (push_bit 2 (ucast (?buf ! (r * 1280 + (5 * g + 4))) :: 16 word))
                   AND 3)"
    by blast
  from el[rule_format, of 0 40 3] have code: "flat ! 163 = 815" by simp
  have differ: "unpack_raw 760 ?buf \<noteq> Inr (claimed_legacy_pixels 1280 760 1265 ?buf)"
  proof
    assume "unpack_raw 760 ?buf = Inr (claimed_legacy_pixels 1280 760 1265 ?buf)"
    then have eq: "claimed_legacy_pixels 1280 760 1265 ?buf = U16 [760, 4 * 253] flat"
      unfolding res by simp
    have "flat ! (0 * ((1265 div 5) * 4) + (40 * 4 + 3)) =
            claimed_legacy_sample (?buf ! (0 * 1280 + (5 * 40 + 3))) (?buf ! (0 * 1280 + (5 * 40 + 4))) 3"
      by (rule nth_claimed_legacy_pixels[OF eq]) simp_all
    then have "flat ! 163 = 812" by (simp add: claimed_legacy_sample_def)
    with code show False by simp
  qed
  have "unpack_pixels (RPICAM2DNG (basic_tags 1012 760 10)) (U8 [983040] ?buf) =
          unpack_raw 760 ?buf"
    by (rule unpack_pixels_u8[OF _ height]) simp
  with differ row claimed show ?thesis by (simp only:) simp
qed

text \<open>
  C2, as the code has it. For a uint8 buffer and a declared height of 1944, 2464 or 760,
  the unpacker reshapes and crops by the table, widens to uint16 and shifts every
  column, the fifth included, left by 2; the output has four columns for every five of
  the cropped array, and its column \<open>4g + k\<close> is the shifted data column \<open>5g + k\<close> OR-ed
  with the shifted fifth column \<open>5g + 4\<close> moved right by \<open>(k + 1) * 2\<close> bits and masked to
  two bits, which is bits \<open>2k\<close> and \<open>2k + 1\<close> of the packed fifth byte. Every fifth column
  is gone.
\<close>

theorem legacy_scheme_unpack:
  assumes cls: "is_rpicam cls"
    and height: "tag_value (model_tags cls) ImageLength = Inr height"
    and legacy: "height \<in> {1944, 2464, 760}"
    and geo: "map_of geometry (select_ver height) = Some ((R, C), (cr, cc))"
    and len: "length buf = R * C"
  shows "\<exists>flat. unpack_pixels cls (U8 shp buf) = Inr (U16 [cr, 4 * (cc div 5)] flat) \<and>
           length flat = cr * (4 * (cc div 5)) \<and>
           (\<forall>r<cr. \<forall>g<cc div 5. \<forall>k<4.
              flat ! (r * (4 * (cc div 5)) + (4 * g + k)) =
                push_bit 2 (ucast (buf ! (r * C + (5 * g + k)))) OR
                (drop_bit ((k + 1) * 2) (push_bit 2 (ucast (buf ! (r * C + (5 * g + 4))) :: 16 word))
                   AND 3) \<and>
              flat ! (r * (4 * (cc div 5)) + (4 * g + k)) =
                push_bit 2 (ucast (buf ! (r * C + (5 * g + k)))) OR
                ucast (drop_bit (2 * k) (buf ! (r * C + (5 * g + 4))) AND 3))"
proof -
  have "select_ver height < 4 \<and> cr \<le> R \<and> cc \<le> C \<and> cc = 5 * (cc div 5)"
    using legacy geo by (auto simp: select_ver_def geometry_def)
  then have "\<exists>flat. unpack_pixels cls (U8 shp buf) = Inr (U16 [cr, 4 * (cc div 5)] flat) \<and>
           length flat = cr * (4 * (cc div 5)) \<and>
           (\<forall>r<cr. \<forall>g<cc div 5. \<forall>k<4.
              flat ! (r * (4 * (cc div 5)) + (4 * g + k)) =
                push_bit 2 (ucast (buf ! (r * C + (5 * g + k)))) OR
                (drop_bit ((k + 1) * 2) (push_bit 2 (ucast (buf ! (r * C + (5 * g + 4))) :: 16 word))
                   AND 3))"
    unfolding unpack_pixels_u8[OF cls height]
    using unpack_raw_legacy[OF geo _ _ _ _ len, of "cc div 5"] by blast
  then obtain flat where res: "unpack_pixels cls (U8 shp buf) = Inr (U16 [cr, 4 * (cc div 5)] flat)"
    and l: "length flat = cr * (4 * (cc div 5))"
    and el: "\<And>r g k. r < cr \<Longrightarrow> g < cc div 5 \<Longrightarrow> k < 4 \<Longrightarrow>
              flat ! (r * (4 * (cc div 5)) + (4 * g + k)) =
                push_bit 2 (ucast (buf ! (r * C + (5 * g + k)))) OR
                (drop_bit ((k + 1) * 2) (push_bit 2 (ucast (buf ! (r * C + (5 * g + 4))) :: 16 word))
                   AND 3)"
    by blast
  have el2: "flat ! (r * (4 * (cc div 5)) + (4 * g + k)) =
                push_bit 2 (ucast (buf ! (r * C + (5 * g + k)))) OR
                ucast (drop_bit (2 * k) (buf ! (r * C + (5 * g + 4))) AND 3)"
    if "r < cr" "g < cc div 5" "k < 4" for r g k
    using el[OF that] unfolding legacy_slice_of_byte[OF that(3)] .
  show ?thesis using res l el el2 by blast
qed

theorem legacy_scheme_unpack_witness:
  "\<exists>flat. unpack_pixels (RPICAM2DNG (basic_tags 1012 760 10))
              (U8 [983040] (map of_nat [0..<768 * 1280])) = Inr (U16 [760, 1012] flat) \<and>
          length flat = 769120 \<and> flat ! 163 = 815"
proof -
  have cls: "is_rpicam (RPICAM2DNG (basic_tags 1012 760 10))" by simp
  have height: "tag_value (model_tags (RPICAM2DNG (basic_tags 1012 760 10))) ImageLength = Inr 760"
    by (simp add: tag_value_def tags_get_def basic_tags_def)
  have legacy: "(760::int) \<in> {1944, 2464, 760}" by simp
  have geo: "map_of geometry (select_ver 760) = Some ((768, 1280), (760, 1265))"
    by (simp add: select_ver_def geometry_def)
  have len: "length (map of_nat [0..<768 * 1280] :: 8 word list) = 768 * 1280" by simp
  from legacy_scheme_unpack[OF cls height legacy geo len, of "[983040]"]
  obtain flat where res: "unpack_pixels (RPICAM2DNG (basic_tags 1012 760 10))
              (U8 [983040] (map of_nat [0..<768 * 1280])) = Inr (U16 [760, 4 * (1265 div 5)] flat)"
    and l: "length flat = 760 * (4 * (1265 div 5))"
    and el: "\<forall>r<760. \<forall>g<1265 div 5. \<forall>k<4.
              flat ! (r * (4 * (1265 div 5)) + (4 * g + k)) =
                push_bit 2 (ucast ((map of_nat [0..<768 * 1280] :: 8 word list) ! (r * 1280 + (5 * g + k)))) OR
                ucast (drop_bit (2 * k) ((map of_nat [0..<768 * 1280] :: 8 word list) ! (r * 1280 + (5 * g + 4))) AND 3)"
    by blast
  from el[rule_format, of 0 40 3] have "flat ! 163 = 815" by simp
  with res l show ?thesis by simp
qed

text \<open>
  C3. For a uint8 buffer and a declared height of 1080, 1520 or 3040, each triplet
  \<open>(b0, b1, b2)\<close> along a cropped row gives the even sample \<open>(b0 << 4) | (b2 & 0x0F)\<close> and
  the odd sample \<open>(b1 << 4) | ((b2 >> 4) & 0x0F)\<close>: two samples for three bytes. The source
  adds where the claim writes \<open>|\<close>; the two agree because the summands share no bit.
\<close>

theorem modern_scheme_unpack:
  assumes cls: "is_rpicam cls"
    and height: "tag_value (model_tags cls) ImageLength = Inr height"
    and modern: "height \<in> {1080, 1520, 3040}"
    and geo: "map_of geometry (select_ver height) = Some ((R, C), (cr, cc))"
    and len: "length buf = R * C"
  shows "\<exists>flat. unpack_pixels cls (U8 shp buf) = Inr (U16 [cr, 2 * (cc div 3)] flat) \<and>
           length flat = cr * (2 * (cc div 3)) \<and>
           (\<forall>r<cr. \<forall>t<cc div 3.
              flat ! (r * (2 * (cc div 3)) + 2 * t) =
                push_bit 4 (ucast (buf ! (r * C + 3 * t))) OR
                (ucast (buf ! (r * C + (3 * t + 2))) AND 15) \<and>
              flat ! (r * (2 * (cc div 3)) + (2 * t + 1)) =
                push_bit 4 (ucast (buf ! (r * C + (3 * t + 1)))) OR
                (drop_bit 4 (ucast (buf ! (r * C + (3 * t + 2))) :: 16 word) AND 15))"
proof -
  have "\<not> select_ver height < 4 \<and> cr \<le> R \<and> cc \<le> C \<and> cc = 3 * (cc div 3)"
    using modern geo by (auto simp: select_ver_def geometry_def)
  then show ?thesis
    unfolding unpack_pixels_u8[OF cls height]
    using unpack_raw_modern[OF geo _ _ _ _ len, of "cc div 3"] by blast
qed

theorem modern_scheme_unpack_witness:
  "\<exists>flat. unpack_pixels (PICAM2DNG (basic_tags 2028 1080 12))
              (U8 [3317760] (map of_nat [0..<1080 * 3072])) = Inr (U16 [1080, 2028] flat) \<and>
          length flat = 2190240 \<and> flat ! 114 = 2749 \<and> flat ! 115 = 2762"
proof -
  have cls: "is_rpicam (PICAM2DNG (basic_tags 2028 1080 12))" by simp
  have height: "tag_value (model_tags (PICAM2DNG (basic_tags 2028 1080 12))) ImageLength = Inr 1080"
    by (simp add: tag_value_def tags_get_def basic_tags_def)
  have modern: "(1080::int) \<in> {1080, 1520, 3040}" by simp
  have geo: "map_of geometry (select_ver 1080) = Some ((1080, 3072), (1080, 3042))"
    by (simp add: select_ver_def geometry_def)
  have len: "length (map of_nat [0..<1080 * 3072] :: 8 word list) = 1080 * 3072" by simp
  from modern_scheme_unpack[OF cls height modern geo len, of "[3317760]"]
  obtain flat where res: "unpack_pixels (PICAM2DNG (basic_tags 2028 1080 12))
              (U8 [3317760] (map of_nat [0..<1080 * 3072])) = Inr (U16 [1080, 2 * (3042 div 3)] flat)"
    and l: "length flat = 1080 * (2 * (3042 div 3))"
    and el: "\<forall>r<1080. \<forall>t<3042 div 3.
              flat ! (r * (2 * (3042 div 3)) + 2 * t) =
                push_bit 4 (ucast ((map of_nat [0..<1080 * 3072] :: 8 word list) ! (r * 3072 + 3 * t))) OR
                (ucast ((map of_nat [0..<1080 * 3072] :: 8 word list) ! (r * 3072 + (3 * t + 2))) AND 15) \<and>
              flat ! (r * (2 * (3042 div 3)) + (2 * t + 1)) =
                push_bit 4 (ucast ((map of_nat [0..<1080 * 3072] :: 8 word list) ! (r * 3072 + (3 * t + 1)))) OR
                (drop_bit 4 (ucast ((map of_nat [0..<1080 * 3072] :: 8 word list) ! (r * 3072 + (3 * t + 2))) :: 16 word) AND 15)"
    by blast
  from el[rule_format, of 0 57] have "flat ! 114 = 2749 \<and> flat ! 115 = 2762" by simp
  with res l show ?thesis by simp
qed

text \<open>
  C4 says that writing the file and completing its name are left to a collaborator
  above \<open>convert\<close>. The code does both itself when a file name is given: here the file
  \<open>/tmp/frame.dng\<close> does not exist before the call, holds the buffer after it, and the
  call returns the path instead of the buffer.
\<close>

theorem convert_writes_file_counterexample:
  "fst (convert plain_externals DNGBASE
          \<lparr>compress = Some False, path = Some ''/tmp'', tags = Some (basic_tags 2 1 16),
           filter_fn = None\<rparr>
          empty_fs (U16 [1, 2] [0x1234, 0xABCD]) ''frame'') = Inr (OutputPath ''/tmp/frame.dng'') \<and>
   files (fst (snd (convert plain_externals DNGBASE
          \<lparr>compress = Some False, path = Some ''/tmp'', tags = Some (basic_tags 2 1 16),
           filter_fn = None\<rparr>
          empty_fs (U16 [1, 2] [0x1234, 0xABCD]) ''frame''))) ''/tmp/frame.dng'' =
     Some [0x34, 0x12, 0xCD, 0xAB] \<and>
   files empty_fs ''/tmp/frame.dng'' = None"
  by (simp add: convert_def produce_def deliver_def data_condition_def unpack_pixels_def
      filter_stage_def process_def select_tile_def tag_value_def tags_get_def basic_tags_def
      tags_list_def plain_externals_def u16_bytes_def output_name_def endswith_def path_join_def
      write_file_def empty_fs_def Let_def)

text \<open>
  C4, as the code has it. With an empty file name (the default) \<open>convert\<close> returns the
  buffer and leaves the file system as it was. With a non-empty file name \<open>convert\<close>
  itself appends \<open>.dng\<close> unless the name ends with it, joins the name to the configured
  path, writes the buffer there and returns the path; this is the outcome whenever the
  file can be opened and the write goes through.
\<close>

theorem convert_output_boundary:
  assumes "convert ext cls self fs img filename = (res, fs', ws)"
    and "fst (produce ext cls self img) = Inr buf"
  shows "(filename = [] \<longrightarrow> res = Inr (Buffer buf) \<and> fs' = fs)
         \<and> (filename \<noteq> [] \<longrightarrow>
              (\<forall>p. path self = Some p \<longrightarrow> writable fs (output_name p filename) \<longrightarrow>
                 write_fails fs (output_name p filename) buf = None \<longrightarrow>
                 res = Inr (OutputPath (output_name p filename)) \<and>
                 fs' = fs\<lparr>files := (files fs)(output_name p filename \<mapsto> buf)\<rparr> \<and>
                 endswith (output_name p filename) ''.dng''))"
  using assms endswith_output_name
  by (auto simp: convert_def deliver_def write_file_def Let_def split: prod.splits sum.splits)

theorem convert_output_boundary_witness:
  "fst (convert plain_externals DNGBASE
     \<lparr>compress = Some False, path = Some ''/tmp'', tags = Some (basic_tags 2 1 16),
      filter_fn = None\<rparr>
     empty_fs (U16 [1, 2] [0x1234, 0xABCD]) []) = Inr (Buffer [0x34, 0x12, 0xCD, 0xAB]) \<and>
   fst (convert plain_externals DNGBASE
     \<lparr>compress = Some False, path = Some ''/tmp'', tags = Some (basic_tags 2 1 16),
      filter_fn = None\<rparr>
     empty_fs (U16 [1, 2] [0x1234, 0xABCD]) ''shot.dng'') = Inr (OutputPath ''/tmp/shot.dng'')"
proof -
  let ?self = "\<lparr>compress = Some False, path = Some ''/tmp'', tags = Some (basic_tags 2 1 16),
      filter_fn = None\<rparr>"
  have p: "fst (produce plain_externals DNGBASE ?self (U16 [1, 2] [0x1234, 0xABCD])) =
             Inr [0x34, 0x12, 0xCD, 0xAB]"
    by (simp add: produce_def data_condition_def unpack_pixels_def
      filter_stage_def process_def select_tile_def tag_value_def tags_get_def basic_tags_def
      tags_list_def plain_externals_def u16_bytes_def)
  obtain res fs' ws where c: "convert plain_externals DNGBASE ?self empty_fs
      (U16 [1, 2] [0x1234, 0xABCD]) [] = (res, fs', ws)"
    by (cases "convert plain_externals DNGBASE ?self empty_fs (U16 [1, 2] [0x1234, 0xABCD]) []")
  obtain res2 fs2 ws2 where c2: "convert plain_externals DNGBASE ?self empty_fs
      (U16 [1, 2] [0x1234, 0xABCD]) ''shot.dng'' = (res2, fs2, ws2)"
    by (cases "convert plain_externals DNGBASE ?self empty_fs (U16 [1, 2] [0x1234, 0xABCD])
                 ''shot.dng''")
  have n: "output_name ''/tmp'' ''shot.dng'' = ''/tmp/shot.dng''"
    by (simp add: output_name_def endswith_def path_join_def)
  from convert_output_boundary[OF c p] convert_output_boundary[OF c2 p] n
  show ?thesis unfolding c c2 by (simp add: empty_fs_def)
qed

text \<open>
  C5 says that the result of the filter is compared with the frame in shape and numeric
  range. The dtype is compared with uint16, not with the frame's: for a frame of a
  four-byte integer dtype, which the Raspberry Pi classes pass on with a warning, the
  identity filter is rejected although its result is the frame itself, and a filter
  that returns a uint16 array of the same shape is accepted.
\<close>

theorem identity_filter_rejected_counterexample:
  "shape_of (Other 4 Little [1, 2] [5, 6]) = shape_of (Other 4 Little [1, 2] [5, 6]) \<and>
   dtype_of (Other 4 Little [1, 2] [5, 6]) = dtype_of (Other 4 Little [1, 2] [5, 6]) \<and>
   filter_stage (Other 4 Little [1, 2] [5, 6]) (Some (\<lambda>a. Inr (Array a))) =
     Inl (ValueError ''array data type is invalid!'') \<and>
   filter_stage (Other 4 Little [1, 2] [5, 6]) (Some (\<lambda>a. Inr (Array (U16 [1, 2] [5, 6])))) =
     Inr (U16 [1, 2] [5, 6]) \<and>
   produce plain_externals (RPICAM2DNG (basic_tags 2 1 16))
     \<lparr>compress = Some False, path = Some ''/tmp'', tags = Some (basic_tags 2 1 16),
      filter_fn = Some (\<lambda>a. Inr (Array a))\<rparr>
     (Other 4 Little [1, 2] [5, 6]) =
     (Inl (ValueError ''array data type is invalid!''),
      [''RAW Data is not in correct format. Already unpacked? ''])"
  by (simp add: filter_stage_def produce_def data_condition_def unpack_pixels_def)

text \<open>
  C5, as the code has it. Right after the filter returns, its result must be an array
  (else \<open>TypeError\<close>), of the shape of the frame (else \<open>ValueError\<close>) and of dtype uint16
  (else \<open>ValueError\<close>); a result that passes is returned, and these are the only
  outcomes. No element is inspected.
\<close>

theorem filter_postcondition:
  assumes "f rawFrame = Inr out"
  shows "(\<forall>p. filter_stage rawFrame (Some f) = Inr p \<longleftrightarrow>
              out = Array p \<and> shape_of p = shape_of rawFrame \<and> dtype_of p = UInt16)
         \<and> (\<forall>e. filter_stage rawFrame (Some f) = Inl e \<longleftrightarrow>
              (out = NotArray \<and> e = TypeError ''return value is not a valid numpy array!'') \<or>
              (\<exists>p. out = Array p \<and> shape_of p \<noteq> shape_of rawFrame \<and>
                   e = ValueError ''return array does not have the same shape!'') \<or>
              (\<exists>p. out = Array p \<and> shape_of p = shape_of rawFrame \<and> dtype_of p \<noteq> UInt16 \<and>
                   e = ValueError ''array data type is invalid!''))"
  using assms by (cases out) (auto simp: filter_stage_def)

theorem filter_postcondition_witness:
  "filter_stage (U16 [1, 2] [5, 6]) (Some (\<lambda>a. Inr (Array (U16 [1, 2] [7, 8])))) =
     Inr (U16 [1, 2] [7, 8]) \<and>
   filter_stage (U16 [1, 2] [5, 6]) (Some (\<lambda>a. Inr (Array (U16 [2] [7, 8])))) =
     Inl (ValueError ''return array does not have the same shape!'')"
  using filter_postcondition
          [of "\<lambda>a. Inr (Array (U16 [1, 2] [7, 8]))" "U16 [1, 2] [5, 6]" "Array (U16 [1, 2] [7, 8])"]
        filter_postcondition
          [of "\<lambda>a. Inr (Array (U16 [2] [7, 8]))" "U16 [1, 2] [5, 6]" "Array (U16 [2] [7, 8])"]
  by simp

text \<open>
  C6. For the Raspberry Pi classes an array whose dtype is not uint8 is returned by the
  unpacker as it is, and \<open>__data_condition__\<close> answers with a warning, not an error; a
  warning is emitted exactly when the dtype is not uint8.
\<close>

theorem rpicam_passthrough:
  assumes "is_rpicam cls"
  shows "(\<exists>ws. data_condition cls data = Inr ws \<and> (ws \<noteq> [] \<longleftrightarrow> dtype_of data \<noteq> UInt8))
         \<and> (dtype_of data \<noteq> UInt8 \<longrightarrow>
              unpack_pixels cls data = Inr data \<and>
              data_condition cls data =
                Inr [''RAW Data is not in correct format. Already unpacked? ''])"
  using assms by (simp add: data_condition_def unpack_pixels_def)

theorem rpicam_passthrough_witness:
  "unpack_pixels (RPICAM2DNG []) (U16 [2, 2] [1, 2, 3, 4]) = Inr (U16 [2, 2] [1, 2, 3, 4]) \<and>
   data_condition (RPICAM2DNG []) (U16 [2, 2] [1, 2, 3, 4]) =
     Inr [''RAW Data is not in correct format. Already unpacked? '']"
  using rpicam_passthrough [of "RPICAM2DNG []" "U16 [2, 2] [1, 2, 3, 4]"] by simp




text \<open>
  C8. Without compression, at depth 8 the strip holds one byte per sample, the sample
  cast to uint8; at depth 16 it holds two bytes per sample, the sample's own two bytes
  in the machine's byte order. No bit crosses a sample boundary.
\<close>

theorem byte_aligned_strips:
  "select_tile ext (U16 shp xs) w l 8 False = Inr (Some (map ucast xs)) \<and>
   select_tile ext (U16 shp xs) w l 16 False = Inr (Some (concat (map (u16_bytes (native ext)) xs))) \<and>
   length (concat (map (u16_bytes (native ext)) xs)) = 2 * length xs \<and>
   (\<forall>i<length xs.
      [concat (map (u16_bytes (native ext)) xs) ! (2 * i),
       concat (map (u16_bytes (native ext)) xs) ! (2 * i + 1)] =
      (case native ext of
         Little \<Rightarrow> [ucast (xs ! i), ucast (drop_bit 8 (xs ! i))]
       | Big \<Rightarrow> [ucast (drop_bit 8 (xs ! i)), ucast (xs ! i)]))"
proof -
  let ?rows = "map (u16_bytes (native ext)) xs"
  have u: "\<forall>row \<in> set ?rows. length row = 2" by (auto simp: length_u16_bytes)
  have l: "length (concat ?rows) = 2 * length xs"
    using length_concat_uniform[OF u] by simp
  have e: "[concat ?rows ! (2 * i), concat ?rows ! (2 * i + 1)] =
      (case native ext of
         Little \<Rightarrow> [ucast (xs ! i), ucast (drop_bit 8 (xs ! i))]
       | Big \<Rightarrow> [ucast (drop_bit 8 (xs ! i)), ucast (xs ! i)])" if i: "i < length xs" for i
  proof -
    have "concat ?rows ! (i * 2 + 0) = ?rows ! i ! 0"
      using u i by (intro nth_concat_uniform) simp_all
    moreover have "concat ?rows ! (i * 2 + 1) = ?rows ! i ! 1"
      using u i by (intro nth_concat_uniform) simp_all
    ultimately show ?thesis
      using i by (cases "native ext") (simp_all add: u16_bytes_def mult.commute)
  qed
  show ?thesis using l e by (simp add: select_tile_def)
qed

theorem byte_aligned_strips_witness:
  "select_tile plain_externals (U16 [1, 2] [0x1234, 0xABCD]) 2 1 8 False = Inr (Some [0x34, 0xCD]) \<and>
   select_tile plain_externals (U16 [1, 2] [0x1234, 0xABCD]) 2 1 16 False =
     Inr (Some [0x34, 0x12, 0xCD, 0xAB])"
  using byte_aligned_strips [of plain_externals "[1, 2]" "[0x1234, 0xABCD]" 2 1]
  by (simp add: plain_externals_def u16_bytes_def)

text \<open>
  C9. Without compression and with the three tag values readable, a depth outside
  8, 10, 12, 14, 16 leaves \<open>tile\<close> unassigned and \<open>__process__\<close> raises
  \<open>UnboundLocalError\<close>; for a depth among the five, \<open>tile\<close> is assigned or a packer has
  raised before, so the unbound use is not reached.
\<close>

theorem unbound_tile:
  assumes "tag_value tgs ImageWidth = Inr w" and "tag_value tgs ImageLength = Inr l"
    and "tag_value tgs BitsPerSample = Inr bpp"
  shows "(bpp \<notin> {8, 10, 12, 14, 16} \<longrightarrow>
            select_tile ext rawFrame w l bpp False = Inr None \<and>
            process ext rawFrame tgs False = Inl (UnboundLocalError ''tile''))
         \<and> (bpp \<in> {8, 10, 12, 14, 16} \<longrightarrow> select_tile ext rawFrame w l bpp False \<noteq> Inr None)"
  using assms by (auto simp: process_def select_tile_def split: sum.splits)

theorem unbound_tile_witness:
  "process plain_externals (U16 [1, 2] [1, 2]) (basic_tags 2 1 9) False =
     Inl (UnboundLocalError ''tile'') \<and>
   select_tile plain_externals (U16 [1, 2] [1, 2]) 2 1 12 False \<noteq> Inr None"
  using unbound_tile [of "basic_tags 2 1 9" 2 1 9 plain_externals "U16 [1, 2] [1, 2]"]
        unbound_tile [of "basic_tags 2 1 12" 2 1 12 plain_externals "U16 [1, 2] [1, 2]"]
  by (simp add: tag_value_def tags_get_def basic_tags_def)



end
